theory Spec2Isabelle
  imports Main "HOL-Library.Sublist"
begin

section \<open>Data model\<close>

text \<open>
  A shallow embedding of \<^verbatim>\<open>src/app2.py\<close>: the per-session conversation loop of a
  WebSocket relay between a client, a completion service and two server-side tools.

  Python strings are \<^typ>\<open>string\<close>; a character stands for one code point below 256.
  JSON values are the values \<^verbatim>\<open>json.loads\<close> builds; a Python \<^verbatim>\<open>dict\<close> is an
  association list read with \<^const>\<open>map_of\<close>. Numbers are integers (floating point is
  left out).
\<close>

datatype json =
    JNull
  | JBool bool
  | JInt int
  | JStr string
  | JArr "json list"
  | JObj "(string \<times> json) list"

text \<open>A row of the \<^verbatim>\<open>events\<close> table: the dictionary \<^verbatim>\<open>event_data\<close> of \<^verbatim>\<open>add_event\<close>.\<close>

record event =
  e_session_id :: string
  event_type :: string
  role :: "string option"
  content :: "string option"
  tool_call_id :: "string option"
  tool_name :: "string option"
  tool_result :: "string option"
  sequence_num :: nat

text \<open>
  A tool call of a completion response: \<^verbatim>\<open>tool_call.id\<close>, \<^verbatim>\<open>tool_call.function.name\<close>
  and the raw text \<^verbatim>\<open>tool_call.function.arguments\<close>.
\<close>

record tool_call =
  call_id :: string
  function_name :: string
  function_arguments :: string

text \<open>
  The turns of the in-memory history \<^verbatim>\<open>messages\<close>, one constructor per shape of
  dictionary the code appends:
  \<^verbatim>\<open>{"role": r, "content": c}\<close>,
  \<^verbatim>\<open>{"role": "assistant", "tool_calls": [...]}\<close> and
  \<^verbatim>\<open>{"role": "tool", "tool_call_id": i, "content": c}\<close>.
\<close>

datatype message =
    Turn string string
  | AssistantCalls "tool_call list"
  | ToolTurn string string

text \<open>
  \<^verbatim>\<open>response.choices[0].message\<close>: \<^verbatim>\<open>content\<close> may be \<^verbatim>\<open>None\<close>; \<^verbatim>\<open>tool_calls\<close> is
  only tested for truth and iterated, so \<^verbatim>\<open>None\<close> and the empty list are both \<open>[]\<close>.
\<close>

record response =
  resp_content :: "string option"
  resp_tool_calls :: "tool_call list"

text \<open>The frames \<^verbatim>\<open>websocket.send_json\<close> is given.\<close>

datatype frame =
    TextFrame string
  | ToolUseFrame string json
  | ErrorFrame string
  | DoneFrame

text \<open>
  The exceptions that are raised on the input of a tool executor or of the decoder.
  \<open>KeyError\<close> carries the missing key as \<^verbatim>\<open>repr\<close> prints it, the others their
  message, so that \<^verbatim>\<open>str(e)\<close> is the text carried (the wording is CPython's).
\<close>

datatype py_error =
    KeyError string
  | TypeError string
  | RecursionError string
  | ValueError string

fun error_str :: "py_error \<Rightarrow> string" where
  "error_str (KeyError k) = k"
| "error_str (TypeError m) = m"
| "error_str (RecursionError m) = m"
| "error_str (ValueError m) = m"

text \<open>
  What \<^verbatim>\<open>json.loads\<close> does on a string: it returns the decoded value, it raises
  \<^verbatim>\<open>json.JSONDecodeError\<close>, or it raises an exception of another class
  (\<^verbatim>\<open>RecursionError\<close> on brackets nested too deeply, a plain \<^verbatim>\<open>ValueError\<close> on an
  integer literal beyond the digit limit).
\<close>

datatype loads_result = Decoded json | JSONDecodeError | OtherError py_error

text \<open>
  The collaborators outside the repository, taken as parameters:
  \<^item> \<open>groq_create\<close>: \<^verbatim>\<open>groq_client.chat.completions.create\<close> with the tool schema, as a
    function of the request messages; \<open>Inl m\<close> is an exception \<open>e\<close> with \<^verbatim>\<open>str(e) = m\<close>;
  \<^item> \<open>groq_summarize\<close>: the same client called by \<^verbatim>\<open>handle_session_end\<close> on the summary
    prompt; the content of the answer may be \<^verbatim>\<open>None\<close>;
  \<^item> \<open>json_loads\<close>: \<^verbatim>\<open>json.loads\<close>, with its three outcomes;
  \<^item> \<open>py_str\<close>: what an f-string prints for a value that is not a string;
  \<^item> \<open>insert_event\<close>: whether the insert of a row into \<^verbatim>\<open>events\<close> succeeds;
  \<^item> \<open>update_session\<close>: whether the final update of the \<^verbatim>\<open>sessions\<close> row succeeds.
\<close>

record env =
  groq_create :: "message list \<Rightarrow> string + response"
  groq_summarize :: "string \<Rightarrow> string + string option"
  json_loads :: "string \<Rightarrow> loads_result"
  py_str :: "json \<Rightarrow> string"
  insert_event :: "event \<Rightarrow> bool"
  update_session :: bool

text \<open>
  Everything the handler of one connection reads and writes: the fields of
  \<^verbatim>\<open>ConversationState\<close> that are used (\<open>session_id\<close>, \<open>user_id\<close>,
  \<open>event_sequence\<close>), the local list \<^verbatim>\<open>messages\<close>, the rows of \<^verbatim>\<open>events\<close> stored for
  this session, the \<^verbatim>\<open>status\<close> and \<^verbatim>\<open>summary\<close> of its \<^verbatim>\<open>sessions\<close> row, the frames sent
  to the client (\<open>outbox\<close>), and two traces of calls: the requests given to the
  completion service (\<open>completion_calls\<close>) and the calls of \<^verbatim>\<open>process_tool_call\<close>
  (\<open>tool_invocations\<close>).
\<close>

record world =
  session_id :: string
  user_id :: string
  event_sequence :: nat
  messages :: "message list"
  events_table :: "event list"
  session_status :: string
  session_summary :: "string option"
  outbox :: "frame list"
  completion_calls :: "message list list"
  tool_invocations :: "(string \<times> json) list"

text \<open>
  A piece of the handler either returns, or an exception escapes it; in both cases the
  effects made so far stay.
\<close>

datatype run = Returned world | Escaped py_error world

fun run_world :: "run \<Rightarrow> world" where
  "run_world (Returned w) = w"
| "run_world (Escaped e w) = w"

section \<open>Strings\<close>

text \<open>
  \<^verbatim>\<open>str.isspace\<close> on the code points below 256: TAB to CR, FS to US, space, NEL and
  the no-break space.
\<close>

definition is_space :: "char \<Rightarrow> bool" where
  "is_space c =
     (c \<in> set [CHR 0x09, CHR 0x0A, CHR 0x0B, CHR 0x0C, CHR 0x0D,
                CHR 0x1C, CHR 0x1D, CHR 0x1E, CHR 0x1F, CHR 0x20, CHR 0x85, CHR 0xA0])"

definition strip :: "string \<Rightarrow> string" where
  "strip s = rev (dropWhile is_space (rev (dropWhile is_space s)))"

definition startswith :: "string \<Rightarrow> string \<Rightarrow> bool" where
  "startswith s p = (take (length p) s = p)"

fun join :: "string \<Rightarrow> string list \<Rightarrow> string" where
  "join sep [] = []"
| "join sep [x] = x"
| "join sep (x # y # ys) = x @ sep @ join sep (y # ys)"

text \<open>An optional column printed by an f-string: \<^verbatim>\<open>None\<close> prints as \<^verbatim>\<open>None\<close>.\<close>

fun fmt_opt :: "string option \<Rightarrow> string" where
  "fmt_opt None = ''None''"
| "fmt_opt (Some s) = s"

section \<open>\<^verbatim>\<open>json.dumps\<close>\<close>

text \<open>
  \<^verbatim>\<open>json.dumps\<close> with its defaults (\<^verbatim>\<open>ensure_ascii\<close>, separators \<^verbatim>\<open>", "\<close> and
  \<^verbatim>\<open>": "\<close>) on the values of \<^typ>\<open>json\<close>.
\<close>

definition hex_digit :: "nat \<Rightarrow> char" where
  "hex_digit n = (''0123456789abcdef'') ! (n mod 16)"

definition escape_char :: "char \<Rightarrow> string" where
  "escape_char c =
     (if c = CHR 0x22 then [CHR 0x5C, CHR 0x22]
      else if c = CHR 0x5C then [CHR 0x5C, CHR 0x5C]
      else if c = CHR 0x0A then [CHR 0x5C, CHR ''n'']
      else if c = CHR 0x0D then [CHR 0x5C, CHR ''r'']
      else if c = CHR 0x09 then [CHR 0x5C, CHR ''t'']
      else if c = CHR 0x08 then [CHR 0x5C, CHR ''b'']
      else if c = CHR 0x0C then [CHR 0x5C, CHR ''f'']
      else if 32 \<le> (of_char c :: nat) \<and> (of_char c :: nat) \<le> 126 then [c]
      else [CHR 0x5C, CHR ''u'', CHR ''0'', CHR ''0'',
            hex_digit ((of_char c :: nat) div 16), hex_digit (of_char c :: nat)])"

definition dumps_str :: "string \<Rightarrow> string" where
  "dumps_str s = [CHR 0x22] @ concat (map escape_char s) @ [CHR 0x22]"

fun dec :: "nat \<Rightarrow> string" where
  "dec n = (if n < 10 then [hex_digit n] else dec (n div 10) @ [hex_digit (n mod 10)])"

definition dumps_int :: "int \<Rightarrow> string" where
  "dumps_int i = (if i < 0 then CHR ''-'' # dec (nat (- i)) else dec (nat i))"

fun dumps :: "json \<Rightarrow> string" where
  "dumps JNull = ''null''"
| "dumps (JBool b) = (if b then ''true'' else ''false'')"
| "dumps (JInt i) = dumps_int i"
| "dumps (JStr s) = dumps_str s"
| "dumps (JArr xs) = ''['' @ join '', '' (map dumps xs) @ '']''"
| "dumps (JObj kvs) =
     ''{'' @ join '', '' (map (\<lambda>(k, v). dumps_str k @ '': '' @ dumps v) kvs) @ ''}''"

section \<open>\<^verbatim>\<open>ConversationState.add_event\<close>\<close>

text \<open>
  The counter is incremented first; the row carries the new value. An insert that raises
  is caught and printed, so the row is missing and the counter stays incremented.
\<close>

definition add_event ::
  "env \<Rightarrow> string \<Rightarrow> string option \<Rightarrow> string option \<Rightarrow> string option \<Rightarrow>
   string option \<Rightarrow> string option \<Rightarrow> world \<Rightarrow> world" where
  "add_event env ty rl ct tcid tn tr w =
     (let n = event_sequence w + 1;
          event_data = \<lparr>e_session_id = session_id w, event_type = ty, role = rl,
                        content = ct, tool_call_id = tcid, tool_name = tn,
                        tool_result = tr, sequence_num = n\<rparr>;
          w1 = w\<lparr>event_sequence := n\<rparr>
      in if insert_event env event_data
         then w1\<lparr>events_table := events_table w1 @ [event_data]\<rparr>
         else w1)"

text \<open>\<^verbatim>\<open>websocket.send_json\<close> to a client that is connected: the frame is delivered.\<close>

definition send_json :: "frame \<Rightarrow> world \<Rightarrow> world" where
  "send_json f w = w\<lparr>outbox := outbox w @ [f]\<rparr>"

section \<open>The tools\<close>

definition quoted :: "string \<Rightarrow> string" where
  "quoted s = [CHR 0x27] @ s @ [CHR 0x27]"

fun type_name :: "json \<Rightarrow> string" where
  "type_name JNull = ''NoneType''"
| "type_name (JBool b) = ''bool''"
| "type_name (JInt i) = ''int''"
| "type_name (JStr s) = ''str''"
| "type_name (JArr xs) = ''list''"
| "type_name (JObj kvs) = ''dict''"

text \<open>\<^verbatim>\<open>tool_input[key]\<close> for a key that is a string.\<close>

fun subscript :: "json \<Rightarrow> string \<Rightarrow> py_error + json" where
  "subscript (JObj kvs) key =
     (case map_of kvs key of Some v \<Rightarrow> Inr v | None \<Rightarrow> Inl (KeyError (quoted key)))"
| "subscript (JArr xs) key =
     Inl (TypeError ''list indices must be integers or slices, not str'')"
| "subscript (JStr s) key =
     Inl (TypeError (''string indices must be integers, not '' @ quoted ''str''))"
| "subscript v key =
     Inl (TypeError (quoted (type_name v) @ '' object is not subscriptable''))"

text \<open>What an f-string prints for a value: a string as it is, anything else by \<^verbatim>\<open>str\<close>.\<close>

fun fmt :: "env \<Rightarrow> json \<Rightarrow> string" where
  "fmt env (JStr s) = s"
| "fmt env v = py_str env v"

text \<open>\<^verbatim>\<open>f"{user_id[:8]}"\<close>: the slice of a string or a list; a dict has no such key.\<close>

fun slice8 :: "env \<Rightarrow> json \<Rightarrow> py_error + string" where
  "slice8 env (JStr s) = Inr (take 8 s)"
| "slice8 env (JArr xs) = Inr (py_str env (JArr (take 8 xs)))"
| "slice8 env (JObj kvs) = Inl (KeyError ''slice(None, 8, None)'')"
| "slice8 env v = Inl (TypeError (quoted (type_name v) @ '' object is not subscriptable''))"

definition fetch_user_data :: "env \<Rightarrow> json \<Rightarrow> py_error + json" where
  "fetch_user_data env uid =
     (case slice8 env uid of
        Inl e \<Rightarrow> Inl e
      | Inr p \<Rightarrow>
          Inr (JObj [(''user_id'', uid), (''name'', JStr (''User_'' @ p)),
                     (''tier'', JStr ''premium''), (''created_at'', JStr ''2024-01-15'')]))"

definition search_knowledge_base :: "env \<Rightarrow> json \<Rightarrow> json" where
  "search_knowledge_base env query =
     JObj [(''results'',
            JArr [JStr (''Result for '' @ quoted (fmt env query) @ '' #1''),
                  JStr (''Result for '' @ quoted (fmt env query) @ '' #2'')])]"

text \<open>
  \<open>tool_result_value\<close> is the dictionary \<^verbatim>\<open>result\<close> of \<^verbatim>\<open>process_tool_call\<close>, which
  returns its serialisation.
\<close>

definition tool_result_value :: "env \<Rightarrow> string \<Rightarrow> json \<Rightarrow> py_error + json" where
  "tool_result_value env tname tool_input =
     (if tname = ''fetch_user_data'' then
        (case subscript tool_input ''user_id'' of
           Inl e \<Rightarrow> Inl e
         | Inr uid \<Rightarrow> fetch_user_data env uid)
      else if tname = ''search_knowledge_base'' then
        (case subscript tool_input ''query'' of
           Inl e \<Rightarrow> Inl e
         | Inr query \<Rightarrow> Inr (search_knowledge_base env query))
      else Inr (JObj [(''error'', JStr ''Unknown tool'')]))"

definition process_tool_call :: "env \<Rightarrow> string \<Rightarrow> json \<Rightarrow> py_error + string" where
  "process_tool_call env tname tool_input =
     (case tool_result_value env tname tool_input of
        Inl e \<Rightarrow> Inl e
      | Inr result \<Rightarrow> Inr (dumps result))"

text \<open>Every call of \<^verbatim>\<open>process_tool_call\<close> is written to the trace.\<close>

definition invoke :: "string \<Rightarrow> json \<Rightarrow> world \<Rightarrow> world" where
  "invoke tname tool_input w =
     w\<lparr>tool_invocations := tool_invocations w @ [(tname, tool_input)]\<rparr>"

section \<open>\<^verbatim>\<open>stream_llm_response\<close>\<close>

definition max_iterations :: nat where
  "max_iterations = 3"

definition system_prompt :: string where
  "system_prompt =
     ''You are a helpful assistant. When users ask about user data or knowledge base searches:''
     @ [CHR 0x0A] @ ''- Use fetch_user_data tool for user information''
     @ [CHR 0x0A] @ ''- Use search_knowledge_base tool for knowledge lookups''
     @ [CHR 0x0A] @ ''Answer based on tool results.''"

text \<open>The request of an iteration; \<open>iteration\<close> is the counter after its increment.\<close>

definition groq_messages :: "nat \<Rightarrow> message list \<Rightarrow> message list" where
  "groq_messages iteration msgs =
     (if iteration = 1 then [Turn ''user'' system_prompt] @ msgs else msgs)"

text \<open>
  The text of a response: the event and the frame are guarded by the prefix test, the
  turn of the history only by the text being non-empty.
\<close>

definition handle_text :: "env \<Rightarrow> string option \<Rightarrow> world \<Rightarrow> world" where
  "handle_text env c w =
     (let truthy = (c \<noteq> None \<and> c \<noteq> Some []);
          response_text = (if truthy then strip (the c) else []);
          w1 = (if truthy \<and> response_text \<noteq> [] \<and> \<not> startswith response_text ''I'll''
                then send_json (TextFrame response_text)
                       (add_event env ''assistant_message'' (Some ''assistant'')
                          (Some response_text) None None None w)
                else w)
      in if response_text \<noteq> []
         then w1\<lparr>messages := messages w1 @ [Turn ''assistant'' response_text]\<rparr>
         else w1)"

text \<open>
  The body of the first loop after the arguments are there: the \<^verbatim>\<open>tool_call\<close> event,
  the executor (an executor that raises gives an error dictionary), the
  \<^verbatim>\<open>tool_result\<close> event and the frame. \<^verbatim>\<open>tool_result\<close> is \<^verbatim>\<open>json.dumps\<close> of \<open>result\<close>
  and never empty, so the frame's \<^verbatim>\<open>json.loads(tool_result)\<close> is \<open>result\<close>.
\<close>

definition execute_tool_call :: "env \<Rightarrow> tool_call \<Rightarrow> json \<Rightarrow> world \<Rightarrow> world" where
  "execute_tool_call env tc tool_input w =
     (let tool_use_id = call_id tc;
          tname = function_name tc;
          w1 = add_event env ''tool_call'' None (Some (dumps tool_input))
                 (Some tool_use_id) (Some tname) None w;
          w2 = invoke tname tool_input w1;
          result = (case tool_result_value env tname tool_input of
                      Inr r \<Rightarrow> r
                    | Inl e \<Rightarrow> JObj [(''error'', JStr (error_str e))]);
          w3 = add_event env ''tool_result'' None None
                 (Some tool_use_id) (Some tname) (Some (dumps result)) w2
      in send_json (ToolUseFrame tname result) w3)"

text \<open>
  The body of the first loop. The handler around \<^verbatim>\<open>json.loads\<close> names
  \<^verbatim>\<open>json.JSONDecodeError\<close> only: for that exception the empty dictionary is taken; any
  other exception escapes the loop and \<^verbatim>\<open>stream_llm_response\<close>.
\<close>

definition run_tool_call :: "env \<Rightarrow> tool_call \<Rightarrow> world \<Rightarrow> run" where
  "run_tool_call env tc w =
     (case json_loads env (function_arguments tc) of
        Decoded v \<Rightarrow> Returned (execute_tool_call env tc v w)
      | JSONDecodeError \<Rightarrow> Returned (execute_tool_call env tc (JObj []) w)
      | OtherError e \<Rightarrow> Escaped e w)"

fun run_tool_calls :: "env \<Rightarrow> tool_call list \<Rightarrow> world \<Rightarrow> run" where
  "run_tool_calls env [] w = Returned w"
| "run_tool_calls env (tc # tcs) w =
     (case run_tool_call env tc w of
        Returned w1 \<Rightarrow> run_tool_calls env tcs w1
      | Escaped e w1 \<Rightarrow> Escaped e w1)"

text \<open>
  The second loop: the payload is parsed again, with no fallback, and the executor is
  called again; here the handler names \<^verbatim>\<open>Exception\<close>, so any exception of the decoder
  or of the executor is caught and printed, and the call then has no result turn.
\<close>

fun tool_results :: "env \<Rightarrow> tool_call list \<Rightarrow> message list \<Rightarrow> world \<Rightarrow> message list \<times> world" where
  "tool_results env [] acc w = (acc, w)"
| "tool_results env (tc # tcs) acc w =
     (case json_loads env (function_arguments tc) of
        Decoded tool_input \<Rightarrow>
          (case process_tool_call env (function_name tc) tool_input of
             Inl e \<Rightarrow> tool_results env tcs acc (invoke (function_name tc) tool_input w)
           | Inr r \<Rightarrow>
               tool_results env tcs (acc @ [ToolTurn (call_id tc) r])
                 (invoke (function_name tc) tool_input w))
      | JSONDecodeError \<Rightarrow> tool_results env tcs acc w
      | OtherError e \<Rightarrow> tool_results env tcs acc w)"

definition handle_tool_calls :: "env \<Rightarrow> tool_call list \<Rightarrow> world \<Rightarrow> run" where
  "handle_tool_calls env tool_calls_list w =
     (case run_tool_calls env tool_calls_list w of
        Escaped e w1 \<Rightarrow> Escaped e w1
      | Returned w1 \<Rightarrow>
          (let w2 = w1\<lparr>messages := messages w1 @ [AssistantCalls tool_calls_list]\<rparr>;
               (results, w3) = tool_results env tool_calls_list [] w2
           in Returned (w3\<lparr>messages := messages w3 @ results\<rparr>)))"

text \<open>
  The \<^verbatim>\<open>while\<close> loop, entered with the counter before its increment. Each request is
  written to \<open>completion_calls\<close>.
\<close>

function stream_loop :: "env \<Rightarrow> nat \<Rightarrow> world \<Rightarrow> run" where
  "stream_loop env iteration w =
     (if iteration < max_iterations then
        (let request = groq_messages (iteration + 1) (messages w);
             w0 = w\<lparr>completion_calls := completion_calls w @ [request]\<rparr>
         in case groq_create env request of
              Inl e \<Rightarrow> Returned (send_json (ErrorFrame e) w0)
            | Inr response \<Rightarrow>
                (let w1 = handle_text env (resp_content response) w0
                 in if resp_tool_calls response \<noteq> []
                    then (case handle_tool_calls env (resp_tool_calls response) w1 of
                            Returned w2 \<Rightarrow> stream_loop env (iteration + 1) w2
                          | Escaped e w2 \<Rightarrow> Escaped e w2)
                    else Returned w1))
      else Returned w)"
  by pat_completeness auto
termination
  by (relation "measure (\<lambda>(env, iteration, w). max_iterations - iteration)") auto

text \<open>The \<^verbatim>\<open>done\<close> frame is sent after the loop, when no exception has escaped it.\<close>

definition stream_llm_response :: "env \<Rightarrow> world \<Rightarrow> run" where
  "stream_llm_response env w =
     (case stream_loop env 0 w of
        Returned w1 \<Rightarrow> Returned (send_json DoneFrame w1)
      | Escaped e w1 \<Rightarrow> Escaped e w1)"

section \<open>\<^verbatim>\<open>handle_session_end\<close>\<close>

definition narrative_line :: "event \<Rightarrow> string option" where
  "narrative_line e =
     (if event_type e = ''user_message'' then Some (''User: '' @ fmt_opt (content e))
      else if event_type e = ''assistant_message''
        then Some (''Assistant: '' @ fmt_opt (content e))
      else if event_type e = ''tool_call''
        then Some (''[Tool Call] '' @ fmt_opt (tool_name e) @ '': '' @ fmt_opt (content e))
      else None)"

definition summary_prompt :: "string \<Rightarrow> string" where
  "summary_prompt conversation_text =
     ''Summarize this conversation in bullet points. '' @ [CHR 0x0A]
     @ ''Keep it under 150 words. Include key topics, user intent, and assistant actions.''
     @ [CHR 0x0A, CHR 0x0A] @ ''Conversation:'' @ [CHR 0x0A] @ conversation_text"

text \<open>
  The rows are read back in the order of \<open>sequence_num\<close>, which is the order of
  \<open>events_table\<close>. Times and the duration are left out.
\<close>

definition handle_session_end :: "env \<Rightarrow> world \<Rightarrow> world" where
  "handle_session_end env w =
     (let narrative = List.map_filter narrative_line (events_table w);
          conversation_text = join [CHR 0x0A] narrative;
          summary = (case groq_summarize env (summary_prompt conversation_text) of
                       Inl e \<Rightarrow> Some ''Summary generation failed''
                     | Inr c \<Rightarrow> c);
          w1 = add_event env ''session_end'' None summary None None None w
      in if update_session env
         then w1\<lparr>session_status := ''completed'', session_summary := summary\<rparr>
         else w1)"

section \<open>\<^verbatim>\<open>websocket_endpoint\<close>\<close>

text \<open>
  What \<^verbatim>\<open>websocket.receive_json\<close> gives: it raises \<^verbatim>\<open>WebSocketDisconnect\<close>
  (\<open>Disconnect\<close>), it raises on a frame that is not JSON text (\<open>Malformed\<close>), or it
  returns the decoded value.
\<close>

datatype inbound = Disconnect | Malformed | Frame json

text \<open>
  The handler either waits in \<^verbatim>\<open>receive_json\<close> for the next frame or has returned after
  \<^verbatim>\<open>handle_session_end\<close>.
\<close>

datatype conn = Listening world | Finished world

fun conn_world :: "conn \<Rightarrow> world" where
  "conn_world (Listening w) = w"
| "conn_world (Finished w) = w"

text \<open>
  The tests on a decoded frame. \<^verbatim>\<open>data.get\<close> exists on a dictionary only and
  \<^verbatim>\<open>.strip()\<close> on a string only: anything else raises \<^verbatim>\<open>AttributeError\<close>.
\<close>

datatype disposition = RunTurn string | Skip | Raise

definition dispatch :: "json \<Rightarrow> disposition" where
  "dispatch data =
     (case data of
        JObj kvs \<Rightarrow>
          (if map_of kvs ''type'' = Some (JStr ''message'') then
             (case (case map_of kvs ''content'' of None \<Rightarrow> JStr [] | Some v \<Rightarrow> v) of
                JStr s \<Rightarrow> (let user_input = strip s
                           in if user_input = [] then Skip else RunTurn user_input)
              | _ \<Rightarrow> Raise)
           else Skip)
      | _ \<Rightarrow> Raise)"

text \<open>The three statements run for an accepted message.\<close>

definition user_turn :: "env \<Rightarrow> string \<Rightarrow> world \<Rightarrow> run" where
  "user_turn env user_input w =
     (let w1 = add_event env ''user_message'' (Some ''user'') (Some user_input)
                 None None None w;
          w2 = w1\<lparr>messages := messages w1 @ [Turn ''user'' user_input]\<rparr>
      in stream_llm_response env w2)"

text \<open>
  The \<^verbatim>\<open>while True\<close> loop over the frames that arrive. Both \<^verbatim>\<open>except\<close> clauses
  call \<^verbatim>\<open>handle_session_end\<close> and leave the handler; they also catch an exception
  that escapes the turn of a message.
\<close>

fun receive_loop :: "env \<Rightarrow> inbound list \<Rightarrow> world \<Rightarrow> conn" where
  "receive_loop env [] w = Listening w"
| "receive_loop env (Disconnect # rest) w = Finished (handle_session_end env w)"
| "receive_loop env (Malformed # rest) w = Finished (handle_session_end env w)"
| "receive_loop env (Frame data # rest) w =
     (case dispatch data of
        Raise \<Rightarrow> Finished (handle_session_end env w)
      | Skip \<Rightarrow> receive_loop env rest w
      | RunTurn user_input \<Rightarrow>
          (case user_turn env user_input w of
             Returned w1 \<Rightarrow> receive_loop env rest w1
           | Escaped e w1 \<Rightarrow> Finished (handle_session_end env w1)))"

text \<open>
  A connection for a session identifier with no rows yet: the session row is inserted
  with status \<^verbatim>\<open>active\<close>, \<^verbatim>\<open>session_start\<close> is logged, and the loop starts on an
  empty history.
\<close>

definition connect :: "env \<Rightarrow> string \<Rightarrow> string \<Rightarrow> world" where
  "connect env sid uid =
     add_event env ''session_start'' None (Some sid) None None None
       \<lparr>session_id = sid, user_id = uid, event_sequence = 0, messages = [],
        events_table = [], session_status = ''active'', session_summary = None,
        outbox = [], completion_calls = [], tool_invocations = []\<rparr>"

definition websocket_endpoint :: "env \<Rightarrow> string \<Rightarrow> string \<Rightarrow> inbound list \<Rightarrow> conn" where
  "websocket_endpoint env sid uid frames = receive_loop env frames (connect env sid uid)"

section \<open>A sample session\<close>

text \<open>
  Concrete collaborators for the examples. \<open>sample_loads\<close> agrees with \<^verbatim>\<open>json.loads\<close>
  on the three payloads the examples use: it decodes \<^verbatim>\<open>{"query": "X"}\<close>, it raises
  \<^verbatim>\<open>RecursionError\<close> on 1000 opening brackets, and it rejects \<^verbatim>\<open>{invalid\<close> with
  \<^verbatim>\<open>json.JSONDecodeError\<close>. \<open>sample_groq\<close> answers a request that ends with a user turn by the
  given tool calls (by the reply when there are none), and any other request by the
  reply. \<open>py_str\<close> is never reached in the examples.
\<close>

definition valid_args :: string where
  "valid_args =
     ''{'' @ [CHR 0x22] @ ''query'' @ [CHR 0x22] @ '': '' @ [CHR 0x22] @ ''X'' @ [CHR 0x22] @ ''}''"

definition deep_args :: string where
  "deep_args = replicate 1000 (CHR ''['')"

definition deep_error :: py_error where
  "deep_error =
     RecursionError
       ''maximum recursion depth exceeded while decoding a JSON array from a unicode string''"

definition sample_loads :: "string \<Rightarrow> loads_result" where
  "sample_loads s =
     (if s = valid_args then Decoded (JObj [(''query'', JStr ''X'')])
      else if s = deep_args then OtherError deep_error
      else JSONDecodeError)"

definition search_call :: "string \<Rightarrow> tool_call" where
  "search_call args =
     \<lparr>call_id = ''call_1'', function_name = ''search_knowledge_base'',
      function_arguments = args\<rparr>"

definition sample_groq :: "tool_call list \<Rightarrow> string \<Rightarrow> message list \<Rightarrow> string + response" where
  "sample_groq tcs reply ms =
     (if ms \<noteq> [] \<and> (case last ms of Turn r c \<Rightarrow> r = ''user'' | _ \<Rightarrow> False)
      then Inr \<lparr>resp_content = (if tcs = [] then Some reply else None),
                resp_tool_calls = tcs\<rparr>
      else Inr \<lparr>resp_content = Some reply, resp_tool_calls = []\<rparr>)"

definition sample_env :: "(message list \<Rightarrow> string + response) \<Rightarrow> (event \<Rightarrow> bool) \<Rightarrow> env" where
  "sample_env groq ins =
     \<lparr>groq_create = groq, groq_summarize = (\<lambda>p. Inr (Some ''- searched for X'')),
      json_loads = sample_loads, py_str = dumps, insert_event = ins,
      update_session = True\<rparr>"

text \<open>A provider that answers in plain text, with trailing white space.\<close>

definition plain_env :: env where
  "plain_env = sample_env (sample_groq [] ''Found it. '') (\<lambda>e. True)"

text \<open>A provider whose answer begins with the phrase the code tests for.\<close>

definition deferred_text :: string where
  "deferred_text = ''I'll look that up for you.''"

definition deferred_env :: env where
  "deferred_env = sample_env (sample_groq [] deferred_text) (\<lambda>e. True)"

text \<open>A provider that first asks for one search with the given payload.\<close>

definition calling_env :: "string \<Rightarrow> env" where
  "calling_env args = sample_env (sample_groq [search_call args] ''Found it.'') (\<lambda>e. True)"

text \<open>A provider that asks for the same search on every request.\<close>

definition greedy_env :: env where
  "greedy_env =
     sample_env (\<lambda>ms. Inr \<lparr>resp_content = None, resp_tool_calls = [search_call valid_args]\<rparr>)
       (\<lambda>e. True)"

text \<open>A provider that raises on every request.\<close>

definition failing_env :: env where
  "failing_env = sample_env (\<lambda>ms. Inl ''rate limit exceeded'') (\<lambda>e. True)"

text \<open>A datastore that rejects the row with sequence number 2.\<close>

definition lossy_env :: env where
  "lossy_env = sample_env (sample_groq [] ''Found it.'') (\<lambda>e. sequence_num e \<noteq> 2)"

definition message_frame :: "string \<Rightarrow> inbound" where
  "message_frame c = Frame (JObj [(''type'', JStr ''message''), (''content'', JStr c)])"

text \<open>
  The state in which \<^verbatim>\<open>stream_llm_response\<close> is entered for the first message \<open>u\<close> of
  session \<^verbatim>\<open>s1\<close>.
\<close>

text \<open>A second call, of the other tool, for responses that carry two calls.\<close>

definition fetch_call :: "string \<Rightarrow> tool_call" where
  "fetch_call args =
     \<lparr>call_id = ''call_2'', function_name = ''fetch_user_data'',
      function_arguments = args\<rparr>"

definition asked :: "env \<Rightarrow> string \<Rightarrow> world" where
  "asked env u =
     (let w1 = add_event env ''user_message'' (Some ''user'') (Some u) None None None
                 (connect env ''s1'' ''user_1'')
      in w1\<lparr>messages := messages w1 @ [Turn ''user'' u]\<rparr>)"

section \<open>Payloads on which the decoder raises another exception\<close>

definition loads_escapes :: "env \<Rightarrow> tool_call \<Rightarrow> bool" where
  "loads_escapes env tc =
     (case json_loads env (function_arguments tc) of
        OtherError e \<Rightarrow> True
      | _ \<Rightarrow> False)"

section \<open>Relations between states\<close>

text \<open>
  \<open>log_step env w w'\<close>: from \<open>w\<close> to \<open>w'\<close> the table only gained rows at its end; they
  carry increasing numbers between the two values of the counter, and all the numbers
  in between when no insert fails.
\<close>

definition log_step :: "env \<Rightarrow> world \<Rightarrow> world \<Rightarrow> bool" where
  "log_step env w w' \<longleftrightarrow>
     (\<exists>es. events_table w' = events_table w @ es
        \<and> event_sequence w \<le> event_sequence w'
        \<and> sorted_wrt (<) (map sequence_num es)
        \<and> (\<forall>e \<in> set es. event_sequence w < sequence_num e
                         \<and> sequence_num e \<le> event_sequence w')
        \<and> ((\<forall>e. insert_event env e) \<longrightarrow>
             map sequence_num es = [Suc (event_sequence w)..<Suc (event_sequence w')]))"

text \<open>
  \<open>steps env w w'\<close>: \<open>w'\<close> comes from \<open>w\<close> by the primitive effects of the response loop:
  logging an event, sending a frame other than \<open>DoneFrame\<close>, calling a tool, assigning the
  history, and recording a request.
\<close>

inductive steps :: "env \<Rightarrow> world \<Rightarrow> world \<Rightarrow> bool" for env :: env where
  steps_refl: "steps env w w"
| steps_event: "steps env w w1 \<Longrightarrow> steps env w (add_event env ty rl ct tcid tn tr w1)"
| steps_send: "steps env w w1 \<Longrightarrow> f \<noteq> DoneFrame \<Longrightarrow> steps env w (send_json f w1)"
| steps_invoke: "steps env w w1 \<Longrightarrow> steps env w (invoke n i w1)"
| steps_messages: "steps env w w1 \<Longrightarrow> steps env w (w1\<lparr>messages := m\<rparr>)"
| steps_request:
    "steps env w w1 \<Longrightarrow> steps env w (w1\<lparr>completion_calls := completion_calls w1 @ [r]\<rparr>)"

section \<open>Auxiliary facts\<close>

declare stream_loop.simps [simp del]

lemma log_step_refl: "log_step env w w"
  by (simp add: log_step_def)

lemma log_step_same:
  "events_table w' = events_table w \<Longrightarrow> event_sequence w' = event_sequence w \<Longrightarrow> log_step env w w'"
  by (simp add: log_step_def)

lemma log_step_trans:
  assumes "log_step env a b" and "log_step env b c"
  shows "log_step env a c"
proof -
  from assms(1) obtain es where
    e1: "events_table b = events_table a @ es" "event_sequence a \<le> event_sequence b"
        "sorted_wrt (<) (map sequence_num es)"
        "\<forall>e \<in> set es. event_sequence a < sequence_num e \<and> sequence_num e \<le> event_sequence b"
        "(\<forall>e. insert_event env e) \<longrightarrow> map sequence_num es = [Suc (event_sequence a)..<Suc (event_sequence b)]"
    unfolding log_step_def by blast
  from assms(2) obtain fs where
    e2: "events_table c = events_table b @ fs" "event_sequence b \<le> event_sequence c"
        "sorted_wrt (<) (map sequence_num fs)"
        "\<forall>e \<in> set fs. event_sequence b < sequence_num e \<and> sequence_num e \<le> event_sequence c"
        "(\<forall>e. insert_event env e) \<longrightarrow> map sequence_num fs = [Suc (event_sequence b)..<Suc (event_sequence c)]"
    unfolding log_step_def by blast
  have t: "events_table c = events_table a @ (es @ fs)" using e1(1) e2(1) by simp
  have s: "sorted_wrt (<) (map sequence_num (es @ fs))"
    using e1(3,4) e2(3,4) by (fastforce simp: sorted_wrt_append)
  have r: "\<forall>e \<in> set (es @ fs). event_sequence a < sequence_num e \<and> sequence_num e \<le> event_sequence c"
    using e1(2,4) e2(2,4) by fastforce
  have g: "(\<forall>e. insert_event env e) \<longrightarrow>
             map sequence_num (es @ fs) = [Suc (event_sequence a)..<Suc (event_sequence c)]"
  proof
    assume ok: "\<forall>e. insert_event env e"
    have "[Suc (event_sequence a)..<Suc (event_sequence c)]
            = [Suc (event_sequence a)..<Suc (event_sequence b)] @ [Suc (event_sequence b)..<Suc (event_sequence c)]"
      using e1(2) e2(2) by (metis Suc_le_mono le_Suc_ex upt_add_eq_append)
    then show "map sequence_num (es @ fs) = [Suc (event_sequence a)..<Suc (event_sequence c)]"
      using ok e1(5) e2(5) by simp
  qed
  show ?thesis
    unfolding log_step_def using t s r g e1(2) e2(2) by (meson le_trans)
qed

lemma log_step_add_event: "log_step env w (add_event env ty rl ct tcid tn tr w)"
  by (auto simp: log_step_def add_event_def Let_def)

text \<open>What the three primitive effects leave alone.\<close>

lemma add_event_fields [simp]:
  "event_sequence (add_event env ty rl ct tcid tn tr w) = Suc (event_sequence w)"
  "session_id (add_event env ty rl ct tcid tn tr w) = session_id w"
  "messages (add_event env ty rl ct tcid tn tr w) = messages w"
  "outbox (add_event env ty rl ct tcid tn tr w) = outbox w"
  "completion_calls (add_event env ty rl ct tcid tn tr w) = completion_calls w"
  "tool_invocations (add_event env ty rl ct tcid tn tr w) = tool_invocations w"
  by (simp_all add: add_event_def Let_def)

lemma send_json_fields [simp]:
  "event_sequence (send_json f w) = event_sequence w"
  "events_table (send_json f w) = events_table w"
  "session_id (send_json f w) = session_id w"
  "messages (send_json f w) = messages w"
  "outbox (send_json f w) = outbox w @ [f]"
  "completion_calls (send_json f w) = completion_calls w"
  "tool_invocations (send_json f w) = tool_invocations w"
  by (simp_all add: send_json_def)

lemma invoke_fields [simp]:
  "event_sequence (invoke n i w) = event_sequence w"
  "events_table (invoke n i w) = events_table w"
  "session_id (invoke n i w) = session_id w"
  "messages (invoke n i w) = messages w"
  "outbox (invoke n i w) = outbox w"
  "completion_calls (invoke n i w) = completion_calls w"
  "tool_invocations (invoke n i w) = tool_invocations w @ [(n, i)]"
  by (simp_all add: invoke_def)

subsection \<open>The completion calls\<close>

lemma handle_text_calls [simp]:
  "completion_calls (handle_text env c w) = completion_calls w"
  by (simp add: handle_text_def Let_def)

lemma execute_tool_call_calls [simp]:
  "completion_calls (execute_tool_call env tc v w) = completion_calls w"
  by (simp add: execute_tool_call_def Let_def)

lemma run_tool_call_calls [simp]:
  "completion_calls (run_world (run_tool_call env tc w)) = completion_calls w"
  by (simp add: run_tool_call_def split: loads_result.splits)

lemma run_tool_calls_calls [simp]:
  "completion_calls (run_world (run_tool_calls env tcs w)) = completion_calls w"
proof (induction tcs arbitrary: w)
  case Nil
  show ?case by simp
next
  case (Cons tc tcs)
  show ?case
    using Cons.IH run_tool_call_calls [of env tc w]
    by (cases "run_tool_call env tc w") simp_all
qed

lemma tool_results_calls [simp]:
  "completion_calls (snd (tool_results env tcs acc w)) = completion_calls w"
  by (induction tcs arbitrary: acc w) (simp_all split: loads_result.splits sum.splits)

lemma handle_tool_calls_calls [simp]:
  "completion_calls (run_world (handle_tool_calls env tcs w)) = completion_calls w"
proof (cases "run_tool_calls env tcs w")
  case (Returned w1)
  then have "completion_calls w1 = completion_calls w"
    using run_tool_calls_calls [of env tcs w] by simp
  with Returned show ?thesis
    by (simp add: handle_tool_calls_def Let_def case_prod_unfold)
next
  case (Escaped e w1)
  then have "completion_calls w1 = completion_calls w"
    using run_tool_calls_calls [of env tcs w] by simp
  with Escaped show ?thesis
    by (simp add: handle_tool_calls_def)
qed

subsection \<open>Unfolding the loop\<close>

lemma stream_loop_exit:
  "\<not> iteration < max_iterations \<Longrightarrow> stream_loop env iteration w = Returned w"
  by (simp add: stream_loop.simps [of env iteration w])

lemma stream_loop_error:
  "iteration < max_iterations \<Longrightarrow>
   groq_create env (groq_messages (Suc iteration) (messages w)) = Inl e \<Longrightarrow>
   stream_loop env iteration w =
     Returned (send_json (ErrorFrame e)
       (w\<lparr>completion_calls := completion_calls w @ [groq_messages (Suc iteration) (messages w)]\<rparr>))"
  by (simp add: stream_loop.simps [of env iteration w] Let_def)

lemma stream_loop_text:
  "iteration < max_iterations \<Longrightarrow>
   groq_create env (groq_messages (Suc iteration) (messages w)) = Inr response \<Longrightarrow>
   resp_tool_calls response = [] \<Longrightarrow>
   stream_loop env iteration w =
     Returned (handle_text env (resp_content response)
       (w\<lparr>completion_calls := completion_calls w @ [groq_messages (Suc iteration) (messages w)]\<rparr>))"
  by (simp add: stream_loop.simps [of env iteration w] Let_def)

lemma stream_loop_tools:
  "iteration < max_iterations \<Longrightarrow>
   groq_create env (groq_messages (Suc iteration) (messages w)) = Inr response \<Longrightarrow>
   resp_tool_calls response \<noteq> [] \<Longrightarrow>
   stream_loop env iteration w =
     (case handle_tool_calls env (resp_tool_calls response)
             (handle_text env (resp_content response)
                (w\<lparr>completion_calls := completion_calls w
                     @ [groq_messages (Suc iteration) (messages w)]\<rparr>)) of
        Returned w2 \<Rightarrow> stream_loop env (Suc iteration) w2
      | Escaped e w2 \<Rightarrow> Escaped e w2)"
  by (simp add: stream_loop.simps [of env iteration w] Let_def split: run.splits)

text \<open>
  An induction rule that follows the four ways through one iteration, for a property
  \<open>P\<close> of the state at the start of the loop and its outcome.
\<close>

lemma stream_loop_cases_induct [case_names exit error plain escaped again]:
  assumes exit: "\<And>iteration w. \<not> iteration < max_iterations \<Longrightarrow> P iteration w (Returned w)"
    and error: "\<And>iteration w e. iteration < max_iterations \<Longrightarrow>
        groq_create env (groq_messages (Suc iteration) (messages w)) = Inl e \<Longrightarrow>
        P iteration w (Returned (send_json (ErrorFrame e)
          (w\<lparr>completion_calls := completion_calls w
               @ [groq_messages (Suc iteration) (messages w)]\<rparr>)))"
    and plain: "\<And>iteration w response. iteration < max_iterations \<Longrightarrow>
        groq_create env (groq_messages (Suc iteration) (messages w)) = Inr response \<Longrightarrow>
        resp_tool_calls response = [] \<Longrightarrow>
        P iteration w (Returned (handle_text env (resp_content response)
          (w\<lparr>completion_calls := completion_calls w
               @ [groq_messages (Suc iteration) (messages w)]\<rparr>)))"
    and escaped: "\<And>iteration w response e w2. iteration < max_iterations \<Longrightarrow>
        groq_create env (groq_messages (Suc iteration) (messages w)) = Inr response \<Longrightarrow>
        resp_tool_calls response \<noteq> [] \<Longrightarrow>
        handle_tool_calls env (resp_tool_calls response)
          (handle_text env (resp_content response)
             (w\<lparr>completion_calls := completion_calls w
                  @ [groq_messages (Suc iteration) (messages w)]\<rparr>)) = Escaped e w2 \<Longrightarrow>
        P iteration w (Escaped e w2)"
    and again: "\<And>iteration w response w2. iteration < max_iterations \<Longrightarrow>
        groq_create env (groq_messages (Suc iteration) (messages w)) = Inr response \<Longrightarrow>
        resp_tool_calls response \<noteq> [] \<Longrightarrow>
        handle_tool_calls env (resp_tool_calls response)
          (handle_text env (resp_content response)
             (w\<lparr>completion_calls := completion_calls w
                  @ [groq_messages (Suc iteration) (messages w)]\<rparr>)) = Returned w2 \<Longrightarrow>
        P (Suc iteration) w2 (stream_loop env (Suc iteration) w2) \<Longrightarrow>
        P iteration w (stream_loop env (Suc iteration) w2)"
  shows "P iteration w (stream_loop env iteration w)"
proof (induction "max_iterations - iteration" arbitrary: iteration w)
  case 0
  then have n: "\<not> iteration < max_iterations" by simp
  show ?case
    unfolding stream_loop_exit [OF n] by (rule exit [OF n])
next
  case (Suc n)
  let ?req = "groq_messages (Suc iteration) (messages w)"
  let ?w0 = "w\<lparr>completion_calls := completion_calls w @ [?req]\<rparr>"
  from Suc.hyps(2) have lt: "iteration < max_iterations" by simp
  from Suc.hyps(2) have m: "n = max_iterations - Suc iteration" by simp
  show ?case
  proof (cases "groq_create env ?req")
    case (Inl e)
    show ?thesis
      unfolding stream_loop_error [OF lt Inl] by (rule error [OF lt Inl])
  next
    case (Inr response)
    show ?thesis
    proof (cases "resp_tool_calls response = []")
      case True
      show ?thesis
        unfolding stream_loop_text [OF lt Inr True] by (rule plain [OF lt Inr True])
    next
      case False
      show ?thesis
      proof (cases "handle_tool_calls env (resp_tool_calls response)
                      (handle_text env (resp_content response) ?w0)")
        case (Escaped e w2)
        have "stream_loop env iteration w = Escaped e w2"
          by (simp add: stream_loop_tools [OF lt Inr False] Escaped)
        then show ?thesis
          using escaped [OF lt Inr False Escaped] by simp
      next
        case (Returned w2)
        have "P (Suc iteration) w2 (stream_loop env (Suc iteration) w2)"
          by (rule Suc.hyps(1) [OF m])
        then have "P iteration w (stream_loop env (Suc iteration) w2)"
          by (rule again [OF lt Inr False Returned])
        moreover have "stream_loop env iteration w = stream_loop env (Suc iteration) w2"
          by (simp add: stream_loop_tools [OF lt Inr False] Returned)
        ultimately show ?thesis by simp
      qed
    qed
  qed
qed

lemma stream_loop_calls:
  "length (completion_calls (run_world (stream_loop env iteration w)))
     \<le> length (completion_calls w) + (max_iterations - iteration)"
proof (induction iteration w rule: stream_loop_cases_induct [where env = env])
  case (escaped iteration w response e w2)
  then show ?case
    using handle_tool_calls_calls [of env "resp_tool_calls response"
      "handle_text env (resp_content response)
         (w\<lparr>completion_calls := completion_calls w
              @ [groq_messages (Suc iteration) (messages w)]\<rparr>)"]
    by simp
next
  case (again iteration w response w2)
  then show ?case
    using handle_tool_calls_calls [of env "resp_tool_calls response"
      "handle_text env (resp_content response)
         (w\<lparr>completion_calls := completion_calls w
              @ [groq_messages (Suc iteration) (messages w)]\<rparr>)"]
    by simp
qed simp_all

subsection \<open>Every operation is a sequence of primitive effects\<close>

lemma steps_trans: "steps env b c \<Longrightarrow> steps env a b \<Longrightarrow> steps env a c"
  by (induction rule: steps.induct) (auto intro: steps.intros)

lemma steps_handle_text: "steps env w w1 \<Longrightarrow> steps env w (handle_text env c w1)"
  by (auto simp: handle_text_def Let_def intro!: steps.intros)

lemma steps_execute_tool_call:
  "steps env w w1 \<Longrightarrow> steps env w (execute_tool_call env tc v w1)"
  by (auto simp: execute_tool_call_def Let_def intro!: steps.intros)

lemma steps_run_tool_call:
  "steps env w w1 \<Longrightarrow> steps env w (run_world (run_tool_call env tc w1))"
  by (simp add: run_tool_call_def steps_execute_tool_call split: loads_result.splits)

lemma steps_run_tool_calls:
  "steps env w w1 \<Longrightarrow> steps env w (run_world (run_tool_calls env tcs w1))"
proof (induction tcs arbitrary: w1)
  case Nil
  then show ?case by simp
next
  case (Cons tc tcs)
  from Cons.prems have s: "steps env w (run_world (run_tool_call env tc w1))"
    by (rule steps_run_tool_call)
  show ?case
  proof (cases "run_tool_call env tc w1")
    case (Returned w2)
    with s have "steps env w w2" by simp
    then have "steps env w (run_world (run_tool_calls env tcs w2))" by (rule Cons.IH)
    with Returned show ?thesis by simp
  next
    case (Escaped e w2)
    with s show ?thesis by simp
  qed
qed

lemma steps_tool_results:
  "steps env w w1 \<Longrightarrow> steps env w (snd (tool_results env tcs acc w1))"
  by (induction tcs arbitrary: acc w1)
     (auto split: loads_result.splits sum.splits intro: steps.intros)

lemma steps_handle_tool_calls:
  assumes "steps env w w1"
  shows "steps env w (run_world (handle_tool_calls env tcs w1))"
proof -
  from assms have s: "steps env w (run_world (run_tool_calls env tcs w1))"
    by (rule steps_run_tool_calls)
  show ?thesis
  proof (cases "run_tool_calls env tcs w1")
    case (Escaped e w2)
    with s show ?thesis by (simp add: handle_tool_calls_def)
  next
    case (Returned w2)
    let ?w3 = "w2\<lparr>messages := messages w2 @ [AssistantCalls tcs]\<rparr>"
    from s Returned have "steps env w ?w3" by (simp add: steps_messages)
    then have "steps env w (snd (tool_results env tcs [] ?w3))"
      by (rule steps_tool_results)
    then have "steps env w ((snd (tool_results env tcs [] ?w3))
               \<lparr>messages := messages (snd (tool_results env tcs [] ?w3))
                              @ fst (tool_results env tcs [] ?w3)\<rparr>)"
      by (rule steps_messages)
    with Returned show ?thesis
      by (simp add: handle_tool_calls_def Let_def case_prod_unfold)
  qed
qed

lemma steps_stream_loop:
  "steps env w0 w \<Longrightarrow> steps env w0 (run_world (stream_loop env iteration w))"
proof (induction iteration w rule: stream_loop_cases_induct [where env = env])
  case (exit iteration w)
  then show ?case by simp
next
  case (error iteration w e)
  then show ?case by (simp add: steps_send steps_request)
next
  case (plain iteration w response)
  then show ?case by (simp add: steps_handle_text steps_request)
next
  case (escaped iteration w response e w2)
  from escaped.prems have "steps env w0 (run_world (handle_tool_calls env (resp_tool_calls response)
          (handle_text env (resp_content response)
             (w\<lparr>completion_calls := completion_calls w
                  @ [groq_messages (Suc iteration) (messages w)]\<rparr>))))"
    by (intro steps_handle_tool_calls steps_handle_text steps_request)
  with escaped.hyps show ?case by simp
next
  case (again iteration w response w2)
  from again.prems have "steps env w0 (run_world (handle_tool_calls env (resp_tool_calls response)
          (handle_text env (resp_content response)
             (w\<lparr>completion_calls := completion_calls w
                  @ [groq_messages (Suc iteration) (messages w)]\<rparr>))))"
    by (intro steps_handle_tool_calls steps_handle_text steps_request)
  with again.hyps have "steps env w0 w2" by simp
  then show ?case by (rule again.IH)
qed

subsection \<open>What a sequence of primitive effects preserves\<close>

lemma log_step_then_same:
  "log_step env w w1 \<Longrightarrow> events_table w' = events_table w1 \<Longrightarrow>
   event_sequence w' = event_sequence w1 \<Longrightarrow> log_step env w w'"
  by (blast intro: log_step_trans log_step_same)

lemma steps_log_step: "steps env w w' \<Longrightarrow> log_step env w w'"
proof (induction rule: steps.induct)
  case (steps_event w w1 ty rl ct tcid tn tr)
  then show ?case by (blast intro: log_step_trans log_step_add_event)
qed (auto intro: log_step_refl log_step_then_same)

lemma steps_outbox:
  "steps env w w' \<Longrightarrow> \<exists>fs. outbox w' = outbox w @ fs \<and> DoneFrame \<notin> set fs"
  by (induction rule: steps.induct) auto

subsection \<open>When the loop returns\<close>

lemma run_tool_calls_returns:
  assumes "\<forall>tc \<in> set tcs. \<not> loads_escapes env tc"
  shows "\<exists>w'. run_tool_calls env tcs w = Returned w'"
  using assms
proof (induction tcs arbitrary: w)
  case Nil
  show ?case by simp
next
  case (Cons tc tcs)
  from Cons.prems have "\<not> loads_escapes env tc" by simp
  then obtain w1 where r: "run_tool_call env tc w = Returned w1"
    by (auto simp: loads_escapes_def run_tool_call_def split: loads_result.splits)
  from Cons.prems have "\<forall>tc \<in> set tcs. \<not> loads_escapes env tc" by simp
  then obtain w' where "run_tool_calls env tcs w1 = Returned w'"
    using Cons.IH by blast
  with r show ?case by simp
qed

lemma handle_tool_calls_returns:
  assumes "\<forall>tc \<in> set tcs. \<not> loads_escapes env tc"
  shows "\<exists>w'. handle_tool_calls env tcs w = Returned w'"
proof -
  from run_tool_calls_returns [OF assms] obtain w1
    where "run_tool_calls env tcs w = Returned w1" by blast
  then show ?thesis
    by (simp add: handle_tool_calls_def Let_def case_prod_unfold)
qed

lemma stream_loop_returns:
  assumes "\<forall>ms response. groq_create env ms = Inr response \<longrightarrow>
             (\<forall>tc \<in> set (resp_tool_calls response). \<not> loads_escapes env tc)"
  shows "\<exists>w'. stream_loop env iteration w = Returned w'"
proof (induction iteration w rule: stream_loop_cases_induct [where env = env])
  case (escaped iteration w response e w2)
  from assms escaped.hyps(2)
  have "\<forall>tc \<in> set (resp_tool_calls response). \<not> loads_escapes env tc" by blast
  then obtain w' where "handle_tool_calls env (resp_tool_calls response)
          (handle_text env (resp_content response)
             (w\<lparr>completion_calls := completion_calls w
                  @ [groq_messages (Suc iteration) (messages w)]\<rparr>)) = Returned w'"
    using handle_tool_calls_returns by blast
  with escaped.hyps(4) show ?case by simp
qed simp_all

lemma stream_llm_response_returns:
  assumes "\<forall>ms response. groq_create env ms = Inr response \<longrightarrow>
             (\<forall>tc \<in> set (resp_tool_calls response). \<not> loads_escapes env tc)"
  shows "\<exists>w'. stream_llm_response env w = Returned w'"
proof -
  from stream_loop_returns [OF assms] obtain w1 where "stream_loop env 0 w = Returned w1"
    by blast
  then show ?thesis by (simp add: stream_llm_response_def)
qed

lemma done_frame_when_returned:
  assumes "stream_llm_response env w = Returned w'"
  shows "\<exists>fs. outbox w' = outbox w @ fs @ [DoneFrame] \<and> DoneFrame \<notin> set fs"
proof (cases "stream_loop env 0 w")
  case (Escaped e w1)
  with assms show ?thesis by (simp add: stream_llm_response_def)
next
  case (Returned w1)
  have "steps env w (run_world (stream_loop env 0 w))"
    by (rule steps_stream_loop) (rule steps_refl)
  with Returned obtain fs where "outbox w1 = outbox w @ fs" "DoneFrame \<notin> set fs"
    using steps_outbox by fastforce
  with assms Returned show ?thesis by (auto simp: stream_llm_response_def)
qed

lemma no_done_frame_when_escaped:
  assumes "stream_llm_response env w = Escaped e w'"
  shows "\<exists>fs. outbox w' = outbox w @ fs \<and> DoneFrame \<notin> set fs"
proof (cases "stream_loop env 0 w")
  case (Returned w1)
  with assms show ?thesis by (simp add: stream_llm_response_def)
next
  case (Escaped e1 w1)
  have "steps env w (run_world (stream_loop env 0 w))"
    by (rule steps_stream_loop) (rule steps_refl)
  with Escaped obtain fs where "outbox w1 = outbox w @ fs" "DoneFrame \<notin> set fs"
    using steps_outbox by fastforce
  with assms Escaped show ?thesis by (auto simp: stream_llm_response_def)
qed

subsection \<open>Text and serialisation\<close>

lemma strip_nonempty_truthy: "strip t \<noteq> [] \<Longrightarrow> t \<noteq> []"
  by (auto simp: strip_def)

lemma dumps_empty_dict: "dumps (JObj []) = ''{}''"
  by simp

subsection \<open>The calls of the executor\<close>

lemma execute_tool_call_invocations [simp]:
  "tool_invocations (execute_tool_call env tc v w) = tool_invocations w @ [(function_name tc, v)]"
  by (simp add: execute_tool_call_def Let_def)

lemma run_tool_calls_invocations:
  "tool_invocations (run_world (run_tool_calls env tcs w)) =
     tool_invocations w
     @ map (\<lambda>tc. (function_name tc,
          case json_loads env (function_arguments tc) of Decoded v \<Rightarrow> v | _ \<Rightarrow> JObj []))
         (takeWhile (\<lambda>tc. \<not> loads_escapes env tc) tcs)"
proof (induction tcs arbitrary: w)
  case Nil
  show ?case by simp
next
  case (Cons tc tcs)
  show ?case
  proof (cases "json_loads env (function_arguments tc)")
    case (Decoded v)
    then show ?thesis
      using Cons.IH [of "execute_tool_call env tc v w"]
      by (simp add: run_tool_call_def loads_escapes_def)
  next
    case JSONDecodeError
    then show ?thesis
      using Cons.IH [of "execute_tool_call env tc (JObj []) w"]
      by (simp add: run_tool_call_def loads_escapes_def)
  next
    case (OtherError e)
    then show ?thesis
      by (simp add: run_tool_call_def loads_escapes_def)
  qed
qed

lemma run_tool_calls_escapes:
  assumes "\<not> list_all (\<lambda>tc. \<not> loads_escapes env tc) tcs"
  shows "\<exists>e w'. run_tool_calls env tcs w = Escaped e w'"
  using assms
proof (induction tcs arbitrary: w)
  case Nil
  then show ?case by simp
next
  case (Cons tc tcs)
  show ?case
  proof (cases "run_tool_call env tc w")
    case (Escaped e w1)
    then show ?thesis by simp
  next
    case (Returned w1)
    then have "\<not> loads_escapes env tc"
      by (auto simp: run_tool_call_def loads_escapes_def split: loads_result.splits)
    with Cons.prems have "\<not> list_all (\<lambda>tc. \<not> loads_escapes env tc) tcs" by simp
    then obtain e w' where "run_tool_calls env tcs w1 = Escaped e w'"
      using Cons.IH by blast
    with Returned show ?thesis by simp
  qed
qed

lemma tool_results_invocations:
  "tool_invocations (snd (tool_results env tcs acc w)) =
     tool_invocations w @ List.map_filter (\<lambda>tc.
        case json_loads env (function_arguments tc) of
          Decoded v \<Rightarrow> Some (function_name tc, v)
        | _ \<Rightarrow> None) tcs"
  by (induction tcs arbitrary: acc w)
     (simp_all add: List.map_filter_simps split: loads_result.splits sum.splits)

subsection \<open>The turns of the history\<close>

lemma execute_tool_call_messages [simp]:
  "messages (execute_tool_call env tc v w) = messages w"
  by (simp add: execute_tool_call_def Let_def)

lemma run_tool_call_messages [simp]:
  "messages (run_world (run_tool_call env tc w)) = messages w"
  by (simp add: run_tool_call_def split: loads_result.splits)

lemma run_tool_calls_messages [simp]:
  "messages (run_world (run_tool_calls env tcs w)) = messages w"
proof (induction tcs arbitrary: w)
  case Nil
  show ?case by simp
next
  case (Cons tc tcs)
  show ?case
    using Cons.IH run_tool_call_messages [of env tc w]
    by (cases "run_tool_call env tc w") simp_all
qed

lemma tool_results_messages [simp]:
  "messages (snd (tool_results env tcs acc w)) = messages w"
  by (induction tcs arbitrary: acc w) (simp_all split: loads_result.splits sum.splits)

lemma tool_results_turns:
  "fst (tool_results env tcs acc w) =
     acc @ List.map_filter (\<lambda>tc.
       case json_loads env (function_arguments tc) of
         Decoded v \<Rightarrow> (case process_tool_call env (function_name tc) v of
                        Inl e \<Rightarrow> None
                      | Inr r \<Rightarrow> Some (ToolTurn (call_id tc) r))
       | _ \<Rightarrow> None) tcs"
  by (induction tcs arbitrary: acc w)
     (simp_all add: List.map_filter_simps split: loads_result.splits sum.splits)

lemma handle_tool_calls_messages:
  assumes "handle_tool_calls env tcs w = Returned w'"
  shows "messages w' =
     messages w @ [AssistantCalls tcs]
     @ List.map_filter (\<lambda>tc.
       case json_loads env (function_arguments tc) of
         Decoded v \<Rightarrow> (case process_tool_call env (function_name tc) v of
                        Inl e \<Rightarrow> None
                      | Inr r \<Rightarrow> Some (ToolTurn (call_id tc) r))
       | _ \<Rightarrow> None) tcs"
proof (cases "run_tool_calls env tcs w")
  case (Escaped e w1)
  with assms show ?thesis by (simp add: handle_tool_calls_def)
next
  case (Returned w1)
  then have "messages w1 = messages w"
    using run_tool_calls_messages [of env tcs w] by simp
  with assms Returned show ?thesis
    by (auto simp: handle_tool_calls_def Let_def case_prod_unfold tool_results_turns)
qed

subsection \<open>The receive loop\<close>

lemma handle_session_end_outbox [simp]: "outbox (handle_session_end env w) = outbox w"
  by (simp add: handle_session_end_def Let_def)

subsection \<open>The event log\<close>

lemma log_step_stream_llm_response:
  "log_step env w (run_world (stream_llm_response env w))"
proof -
  have l: "log_step env w (run_world (stream_loop env 0 w))"
    by (intro steps_log_step steps_stream_loop steps_refl)
  show ?thesis
  proof (cases "stream_loop env 0 w")
    case (Returned w1)
    with l have "log_step env w w1" by simp
    then have "log_step env w (send_json DoneFrame w1)"
      by (rule log_step_then_same) simp_all
    with Returned show ?thesis by (simp add: stream_llm_response_def)
  next
    case (Escaped e w1)
    with l show ?thesis by (simp add: stream_llm_response_def)
  qed
qed

lemma log_step_user_turn: "log_step env w (run_world (user_turn env u w))"
proof -
  let ?w1 = "add_event env ''user_message'' (Some ''user'') (Some u) None None None w"
  let ?w2 = "?w1\<lparr>messages := messages ?w1 @ [Turn ''user'' u]\<rparr>"
  have "log_step env w ?w2"
    by (rule log_step_then_same [OF log_step_add_event]) simp_all
  then show ?thesis
    unfolding user_turn_def Let_def
    by (rule log_step_trans) (rule log_step_stream_llm_response)
qed

lemma log_step_handle_session_end: "log_step env w (handle_session_end env w)"
  unfolding handle_session_end_def Let_def
  by (auto intro: log_step_add_event log_step_then_same [OF log_step_add_event])

lemma log_step_receive_loop: "log_step env w (conn_world (receive_loop env frames w))"
proof (induction frames arbitrary: w)
  case Nil
  show ?case by (simp add: log_step_refl)
next
  case (Cons f frames)
  show ?case
  proof (cases f)
    case Disconnect
    then show ?thesis by (simp add: log_step_handle_session_end)
  next
    case Malformed
    then show ?thesis by (simp add: log_step_handle_session_end)
  next
    case (Frame data)
    show ?thesis
    proof (cases "dispatch data")
      case (RunTurn u)
      have t: "log_step env w (run_world (user_turn env u w))"
        by (rule log_step_user_turn)
      show ?thesis
      proof (cases "user_turn env u w")
        case (Returned w1)
        with t have "log_step env w w1" by simp
        then have "log_step env w (conn_world (receive_loop env frames w1))"
          by (rule log_step_trans) (rule Cons.IH)
        with Frame RunTurn Returned show ?thesis by simp
      next
        case (Escaped e w1)
        with t have "log_step env w w1" by simp
        then have "log_step env w (handle_session_end env w1)"
          by (rule log_step_trans) (rule log_step_handle_session_end)
        with Frame RunTurn Escaped show ?thesis by simp
      qed
    next
      case Skip
      with Frame show ?thesis by (simp add: Cons.IH)
    next
      case Raise
      with Frame show ?thesis by (simp add: log_step_handle_session_end)
    qed
  qed
qed

section \<open>The claims\<close>

subsection \<open>C1: the text of a response\<close>

text \<open>
  C1, as amended. For every completion response in the loop whose text is non-empty
  after stripping white space and does not begin with \<^verbatim>\<open>I'll\<close>: \<^verbatim>\<open>add_event\<close> is
  called once, for an \<^verbatim>\<open>assistant_message\<close> event with the stripped text (the row is
  stored when its insert succeeds), the frame \<^verbatim>\<open>{type: text, content, chunk: true}\<close>
  is sent, and an assistant turn is appended to the history; the loop then ends when
  the response has no tool calls and goes on to the tool calls otherwise.
\<close>

theorem assistant_text_recorded:
  assumes "iteration < max_iterations"
    and "groq_create env (groq_messages (Suc iteration) (messages w)) = Inr response"
    and "resp_content response = Some t"
    and "strip t \<noteq> []"
    and "\<not> startswith (strip t) ''I'll''"
  shows "let w1 = handle_text env (Some t)
                    (w\<lparr>completion_calls := completion_calls w
                                            @ [groq_messages (Suc iteration) (messages w)]\<rparr>)
         in event_sequence w1 = Suc (event_sequence w)
          \<and> events_table w1 = events_table w @ filter (insert_event env)
               [\<lparr>e_session_id = session_id w, event_type = ''assistant_message'',
                 role = Some ''assistant'', content = Some (strip t), tool_call_id = None,
                 tool_name = None, tool_result = None,
                 sequence_num = Suc (event_sequence w)\<rparr>]
          \<and> outbox w1 = outbox w @ [TextFrame (strip t)]
          \<and> messages w1 = messages w @ [Turn ''assistant'' (strip t)]
          \<and> stream_loop env iteration w =
              (if resp_tool_calls response = [] then Returned w1
               else (case handle_tool_calls env (resp_tool_calls response) w1 of
                       Returned w2 \<Rightarrow> stream_loop env (Suc iteration) w2
                     | Escaped e w2 \<Rightarrow> Escaped e w2))"
proof -
  have t: "t \<noteq> []" using assms(4) by (rule strip_nonempty_truthy)
  show ?thesis
    using assms t
    by (simp add: Let_def stream_loop_text stream_loop_tools)
       (simp add: handle_text_def add_event_def send_json_def Let_def)
qed

theorem assistant_text_recorded_witness:
  "0 < max_iterations
   \<and> groq_create plain_env (groq_messages (Suc 0) (messages (asked plain_env ''hello'')))
       = Inr \<lparr>resp_content = Some ''Found it. '', resp_tool_calls = []\<rparr>
   \<and> strip ''Found it. '' = ''Found it.''
   \<and> \<not> startswith (strip ''Found it. '') ''I'll''
   \<and> outbox (run_world (stream_loop plain_env 0 (asked plain_env ''hello'')))
       = [TextFrame ''Found it.'']
   \<and> messages (run_world (stream_loop plain_env 0 (asked plain_env ''hello'')))
       = [Turn ''user'' ''hello'', Turn ''assistant'' ''Found it.'']
   \<and> map event_type
        (events_table (run_world (stream_loop plain_env 0 (asked plain_env ''hello''))))
       = [''session_start'', ''user_message'', ''assistant_message'']"
proof -
  let ?r = "\<lparr>resp_content = Some ''Found it. '', resp_tool_calls = []\<rparr>"
  have h1: "0 < max_iterations" by (simp add: max_iterations_def)
  have h2: "groq_create plain_env (groq_messages (Suc 0) (messages (asked plain_env ''hello''))) = Inr ?r"
    by code_simp
  have h3: "resp_content ?r = Some ''Found it. ''" by simp
  have s: "strip ''Found it. '' = ''Found it.''" by code_simp
  have h4: "strip ''Found it. '' \<noteq> []" by code_simp
  have h5: "\<not> startswith (strip ''Found it. '') ''I'll''" by code_simp
  have o: "outbox (asked plain_env ''hello'') = []" by code_simp
  have m: "messages (asked plain_env ''hello'') = [Turn ''user'' ''hello'']" by code_simp
  have e: "map event_type (events_table (asked plain_env ''hello''))
             = [''session_start'', ''user_message'']" by code_simp
  have i: "insert_event plain_env = (\<lambda>e. True)"
    by (simp add: plain_env_def sample_env_def)
  from assistant_text_recorded [OF h1 h2 h3 h4 h5]
  have "outbox (run_world (stream_loop plain_env 0 (asked plain_env ''hello'')))
       = [TextFrame ''Found it.'']"
    and "messages (run_world (stream_loop plain_env 0 (asked plain_env ''hello'')))
       = [Turn ''user'' ''hello'', Turn ''assistant'' ''Found it.'']"
    and "map event_type
        (events_table (run_world (stream_loop plain_env 0 (asked plain_env ''hello''))))
       = [''session_start'', ''user_message'', ''assistant_message'']"
    by (simp_all add: Let_def s o m e i)
  with h1 h2 s h5 show ?thesis by blast
qed

text \<open>
  The claim as stated fails: the text \<^verbatim>\<open>I'll look that up for you.\<close> is not empty, yet
  the turn that receives it sends only the \<^verbatim>\<open>done\<close> frame and logs no
  \<^verbatim>\<open>assistant_message\<close> event.
\<close>

theorem assistant_text_recorded_counterexample:
  "groq_create deferred_env (groq_messages 1 [Turn ''user'' ''hello''])
     = Inr \<lparr>resp_content = Some ''I'll look that up for you.'', resp_tool_calls = []\<rparr>
   \<and> outbox (run_world
        (user_turn deferred_env ''hello'' (connect deferred_env ''s1'' ''user_1'')))
       = [DoneFrame]
   \<and> map event_type (events_table (run_world
        (user_turn deferred_env ''hello'' (connect deferred_env ''s1'' ''user_1''))))
       = [''session_start'', ''user_message'']"
  by code_simp

subsection \<open>C2: the turns appended for tool calls\<close>

text \<open>
  C2 fails on the code. For the single tool call \<^verbatim>\<open>search_knowledge_base\<close> with the
  arguments \<^verbatim>\<open>{invalid\<close>, the first loop falls back to the empty dictionary and
  produces a result (an error payload, sent to the client), but the second loop parses
  the payload again without the fallback: the history gains the assistant turn that
  carries the call and no tool-result turn for it.
\<close>

theorem tool_result_turn_dropped:
  "json_loads (calling_env ''{invalid'') ''{invalid'' = JSONDecodeError
   \<and> messages (run_world (handle_tool_calls (calling_env ''{invalid'')
        [search_call ''{invalid''] (asked (calling_env ''{invalid'') ''search for X'')))
       = [Turn ''user'' ''search for X'', AssistantCalls [search_call ''{invalid'']]
   \<and> outbox (run_world (handle_tool_calls (calling_env ''{invalid'')
        [search_call ''{invalid''] (asked (calling_env ''{invalid'') ''search for X'')))
       = [ToolUseFrame ''search_knowledge_base''
            (JObj [(''error'', JStr (quoted ''query''))])]"
  by code_simp

subsection \<open>C3: sequence numbers\<close>

text \<open>
  C3, as amended. For every session, the rows stored in \<^verbatim>\<open>events\<close> carry strictly
  increasing sequence numbers (no duplicates, no reordering), each between 1 and the
  number of calls of \<^verbatim>\<open>add_event\<close>, whatever the number of tool-calling iterations; when
  no insert fails they are exactly 1, 2, ..., with no gap. Rows are never updated or
  deleted: whatever frames arrive, the table only grows at its end.
\<close>

theorem event_sequence_numbers:
  "(let w' = conn_world (websocket_endpoint env sid uid frames)
    in sorted_wrt (<) (map sequence_num (events_table w'))
     \<and> (\<forall>e \<in> set (events_table w'). 1 \<le> sequence_num e \<and> sequence_num e \<le> event_sequence w')
     \<and> ((\<forall>e. insert_event env e) \<longrightarrow>
          map sequence_num (events_table w') = [1..<Suc (event_sequence w')]))
   \<and> prefix (events_table w) (events_table (conn_world (receive_loop env frames w)))"
proof -
  let ?w0 = "\<lparr>session_id = sid, user_id = uid, event_sequence = 0, messages = [],
        events_table = [], session_status = ''active'', session_summary = None,
        outbox = [], completion_calls = [], tool_invocations = []\<rparr>"
  let ?w' = "conn_world (websocket_endpoint env sid uid frames)"
  have "log_step env ?w0 (connect env sid uid)"
    unfolding connect_def by (rule log_step_add_event)
  then have "log_step env ?w0 ?w'"
    unfolding websocket_endpoint_def by (rule log_step_trans) (rule log_step_receive_loop)
  then have a: "sorted_wrt (<) (map sequence_num (events_table ?w'))
     \<and> (\<forall>e \<in> set (events_table ?w'). 1 \<le> sequence_num e \<and> sequence_num e \<le> event_sequence ?w')
     \<and> ((\<forall>e. insert_event env e) \<longrightarrow>
          map sequence_num (events_table ?w') = [1..<Suc (event_sequence ?w')])"
    by (auto simp: log_step_def)
  have "log_step env w (conn_world (receive_loop env frames w))"
    by (rule log_step_receive_loop)
  then have b: "prefix (events_table w) (events_table (conn_world (receive_loop env frames w)))"
    by (auto simp: log_step_def)
  from a b show ?thesis by (simp add: Let_def)
qed

theorem event_sequence_numbers_witness:
  "(\<forall>e. insert_event (calling_env valid_args) e)
   \<and> event_sequence (conn_world (websocket_endpoint (calling_env valid_args) ''s1'' ''user_1''
        [message_frame ''search for X'', Disconnect])) = 6
   \<and> map sequence_num (events_table (conn_world
        (websocket_endpoint (calling_env valid_args) ''s1'' ''user_1''
           [message_frame ''search for X'', Disconnect]))) = [1..<Suc 6]"
proof -
  let ?w = "conn_world (websocket_endpoint (calling_env valid_args) ''s1'' ''user_1''
        [message_frame ''search for X'', Disconnect])"
  have ok: "\<forall>e. insert_event (calling_env valid_args) e"
    by (simp add: calling_env_def sample_env_def)
  have n: "event_sequence ?w = 6" by code_simp
  from event_sequence_numbers [of "calling_env valid_args" "''s1''" "''user_1''"
      "[message_frame ''search for X'', Disconnect]"] ok
  have "map sequence_num (events_table ?w) = [1..<Suc (event_sequence ?w)]"
    by (simp add: Let_def)
  with ok n show ?thesis by simp
qed

text \<open>
  The claim as stated fails: when the datastore rejects the second insert (the exception
  is caught and printed by \<^verbatim>\<open>add_event\<close>), the rows stored for the session are
  numbered 1 and 3.
\<close>

theorem event_sequence_numbers_counterexample:
  "map sequence_num (events_table (conn_world
      (websocket_endpoint lossy_env ''s1'' ''user_1'' [message_frame ''hello''])))
     = [1, 3]
   \<and> map sequence_num (events_table (conn_world
      (websocket_endpoint lossy_env ''s1'' ''user_1'' [message_frame ''hello''])))
     \<noteq> [1, 2]"
  by code_simp

subsection \<open>C4: the bound on completion calls\<close>

text \<open>
  C4. One run of \<^verbatim>\<open>stream_llm_response\<close> makes at most 3 calls to the completion
  service, whatever the provider answers and whether the run returns or an exception
  escapes it; the loop is a total function, so it always ends, after at most 3
  iterations.
\<close>

theorem completion_calls_bounded:
  "length (completion_calls (run_world (stream_llm_response env w)))
     \<le> length (completion_calls w) + 3"
proof -
  have "completion_calls (run_world (stream_llm_response env w))
          = completion_calls (run_world (stream_loop env 0 w))"
    by (cases "stream_loop env 0 w") (simp_all add: stream_llm_response_def)
  with stream_loop_calls [of env 0 w] show ?thesis
    by (simp add: max_iterations_def)
qed

theorem completion_calls_bounded_witness:
  "length (completion_calls (run_world
      (stream_llm_response greedy_env (asked greedy_env ''search for X'')))) = 3
   \<and> length (completion_calls (asked greedy_env ''search for X'')) = 0"
proof -
  have a: "length (completion_calls (asked greedy_env ''search for X'')) = 0" by code_simp
  have b: "3 \<le> length (completion_calls (run_world
              (stream_llm_response greedy_env (asked greedy_env ''search for X''))))"
    by code_simp
  from completion_calls_bounded [of greedy_env "asked greedy_env ''search for X''"] a b
  show ?thesis by simp
qed

subsection \<open>C5: the done frame\<close>

text \<open>
  C5 fails on the code. The provider asks for one search whose arguments are 1000
  opening brackets. \<^verbatim>\<open>json.loads\<close> raises \<^verbatim>\<open>RecursionError\<close> on them; the handler of
  the first loop names \<^verbatim>\<open>json.JSONDecodeError\<close> only, so the exception escapes
  \<^verbatim>\<open>stream_llm_response\<close> before the statement that sends the \<^verbatim>\<open>done\<close> frame: the turn
  sends no frame at all, and the handler of the connection finalises the session
  without a \<^verbatim>\<open>done\<close> frame ever being sent.
\<close>

theorem done_frame_missing:
  "json_loads (calling_env deep_args) deep_args = OtherError deep_error
   \<and> stream_llm_response (calling_env deep_args)
        (asked (calling_env deep_args) ''search for X'')
       = Escaped deep_error
           (run_world (stream_llm_response (calling_env deep_args)
              (asked (calling_env deep_args) ''search for X'')))
   \<and> outbox (run_world (stream_llm_response (calling_env deep_args)
        (asked (calling_env deep_args) ''search for X''))) = []
   \<and> outbox (conn_world (websocket_endpoint (calling_env deep_args) ''s1'' ''user_1''
        [message_frame ''search for X''])) = []"
  by code_simp

subsection \<open>C6: a failing completion call\<close>

text \<open>
  C6. When the completion call of an iteration raises, the loop ends at once: the
  request is the last one made (no retry), one \<^verbatim>\<open>{type: error}\<close> frame with the
  message of the exception is sent, and nothing else changes, so no event is logged.
  When this happens on the first request of a turn, the client receives the error
  frame and the done frame, and the receive loop goes on with the next frame: the
  session stays open.
\<close>

theorem provider_failure_ends_turn:
  "(iteration < max_iterations \<and>
      groq_create env (groq_messages (Suc iteration) (messages w)) = Inl e \<longrightarrow>
      stream_loop env iteration w =
        Returned (w\<lparr>outbox := outbox w @ [ErrorFrame e],
          completion_calls := completion_calls w
             @ [groq_messages (Suc iteration) (messages w)]\<rparr>))
   \<and> (strip c \<noteq> [] \<and>
      groq_create env (Turn ''user'' system_prompt # messages w @ [Turn ''user'' (strip c)]) = Inl e \<longrightarrow>
      receive_loop env (message_frame c # rest) w =
        receive_loop env rest
          ((add_event env ''user_message'' (Some ''user'') (Some (strip c)) None None None w)
             \<lparr>messages := messages w @ [Turn ''user'' (strip c)],
              outbox := outbox w @ [ErrorFrame e, DoneFrame],
              completion_calls := completion_calls w
                 @ [Turn ''user'' system_prompt # messages w @ [Turn ''user'' (strip c)]]\<rparr>))"
proof (intro conjI impI)
  assume "iteration < max_iterations \<and>
      groq_create env (groq_messages (Suc iteration) (messages w)) = Inl e"
  then show "stream_loop env iteration w =
        Returned (w\<lparr>outbox := outbox w @ [ErrorFrame e],
          completion_calls := completion_calls w
             @ [groq_messages (Suc iteration) (messages w)]\<rparr>)"
    by (simp add: stream_loop_error send_json_def)
next
  assume a: "strip c \<noteq> [] \<and>
      groq_create env (Turn ''user'' system_prompt # messages w @ [Turn ''user'' (strip c)]) = Inl e"
  let ?w1 = "add_event env ''user_message'' (Some ''user'') (Some (strip c)) None None None w"
  let ?w2 = "?w1\<lparr>messages := messages ?w1 @ [Turn ''user'' (strip c)]\<rparr>"
  have d: "dispatch (JObj [(''type'', JStr ''message''), (''content'', JStr c)]) = RunTurn (strip c)"
    using a by (simp add: dispatch_def Let_def)
  have g: "groq_create env (groq_messages (Suc 0) (messages ?w2)) = Inl e"
    using a by (simp add: groq_messages_def)
  have "stream_loop env 0 ?w2 =
          Returned (send_json (ErrorFrame e)
            (?w2\<lparr>completion_calls := completion_calls ?w2
                 @ [groq_messages (Suc 0) (messages ?w2)]\<rparr>))"
    by (rule stream_loop_error [OF _ g]) (simp add: max_iterations_def)
  then have "user_turn env (strip c) w =
          Returned (?w1\<lparr>messages := messages w @ [Turn ''user'' (strip c)],
              outbox := outbox w @ [ErrorFrame e, DoneFrame],
              completion_calls := completion_calls w
                 @ [Turn ''user'' system_prompt # messages w @ [Turn ''user'' (strip c)]]\<rparr>)"
    by (simp add: user_turn_def stream_llm_response_def Let_def send_json_def groq_messages_def)
  then show "receive_loop env (message_frame c # rest) w =
        receive_loop env rest
          (?w1\<lparr>messages := messages w @ [Turn ''user'' (strip c)],
              outbox := outbox w @ [ErrorFrame e, DoneFrame],
              completion_calls := completion_calls w
                 @ [Turn ''user'' system_prompt # messages w @ [Turn ''user'' (strip c)]]\<rparr>)"
    using d by (simp add: message_frame_def)
qed

theorem provider_failure_ends_turn_witness:
  "0 < max_iterations
   \<and> groq_create failing_env (groq_messages (Suc 0) (messages (asked failing_env ''hello'')))
       = Inl ''rate limit exceeded''
   \<and> strip ''hello'' \<noteq> []
   \<and> events_table (run_world (stream_loop failing_env 0 (asked failing_env ''hello'')))
       = events_table (asked failing_env ''hello'')
   \<and> outbox (run_world (stream_loop failing_env 0 (asked failing_env ''hello'')))
       = [ErrorFrame ''rate limit exceeded'']
   \<and> receive_loop failing_env [message_frame ''hello'', message_frame ''again'']
         (connect failing_env ''s1'' ''user_1'')
       = receive_loop failing_env [message_frame ''again'']
           (run_world (user_turn failing_env ''hello'' (connect failing_env ''s1'' ''user_1'')))
   \<and> outbox (conn_world (receive_loop failing_env [message_frame ''hello'', message_frame ''again'']
         (connect failing_env ''s1'' ''user_1'')))
       = [ErrorFrame ''rate limit exceeded'', DoneFrame,
          ErrorFrame ''rate limit exceeded'', DoneFrame]"
proof -
  let ?w = "asked failing_env ''hello''"
  let ?c = "connect failing_env ''s1'' ''user_1''"
  have h1: "0 < max_iterations" by (simp add: max_iterations_def)
  have h2: "groq_create failing_env (groq_messages (Suc 0) (messages ?w))
              = Inl ''rate limit exceeded''"
    by (simp add: failing_env_def sample_env_def)
  have h3: "strip ''hello'' \<noteq> []" by code_simp
  have h4: "groq_create failing_env
              (Turn ''user'' system_prompt # messages ?c @ [Turn ''user'' (strip ''hello'')])
              = Inl ''rate limit exceeded''"
    by (simp add: failing_env_def sample_env_def)
  have o: "outbox ?w = []" by code_simp
  have u: "run_world (user_turn failing_env ''hello'' ?c) =
            (add_event failing_env ''user_message'' (Some ''user'') (Some (strip ''hello''))
               None None None ?c)
             \<lparr>messages := messages ?c @ [Turn ''user'' (strip ''hello'')],
              outbox := outbox ?c @ [ErrorFrame ''rate limit exceeded'', DoneFrame],
              completion_calls := completion_calls ?c
                 @ [Turn ''user'' system_prompt # messages ?c @ [Turn ''user'' (strip ''hello'')]]\<rparr>"
    by code_simp
  have f: "outbox (conn_world (receive_loop failing_env
              [message_frame ''hello'', message_frame ''again''] ?c))
       = [ErrorFrame ''rate limit exceeded'', DoneFrame,
          ErrorFrame ''rate limit exceeded'', DoneFrame]"
    by code_simp
  note t1 = provider_failure_ends_turn [where iteration = 0 and env = failing_env
             and w = ?w and e = "''rate limit exceeded''"]
  note t2 = provider_failure_ends_turn [where env = failing_env and w = ?c
             and e = "''rate limit exceeded''" and c = "''hello''"
             and rest = "[message_frame ''again'']"]
  from t1 h1 h2 have a: "stream_loop failing_env 0 ?w =
        Returned (?w\<lparr>outbox := outbox ?w @ [ErrorFrame ''rate limit exceeded''],
          completion_calls := completion_calls ?w @ [groq_messages (Suc 0) (messages ?w)]\<rparr>)"
    by blast
  from t2 h3 h4 have b: "receive_loop failing_env (message_frame ''hello'' # [message_frame ''again'']) ?c
       = receive_loop failing_env [message_frame ''again'']
           (run_world (user_turn failing_env ''hello'' ?c))"
    unfolding u by blast
  have a1: "events_table (run_world (stream_loop failing_env 0 ?w)) = events_table ?w"
    by (simp add: a)
  have a2: "outbox (run_world (stream_loop failing_env 0 ?w)) = [ErrorFrame ''rate limit exceeded'']"
    by (simp add: a o)
  from h1 h2 h3 a1 a2 b f show ?thesis by blast
qed

subsection \<open>C7: arguments that do not parse\<close>

text \<open>
  C7 fails on the code. The arguments of the requested search are 1000 opening
  brackets, which are not JSON. \<^verbatim>\<open>json.loads\<close> raises \<^verbatim>\<open>RecursionError\<close> on them, which
  the handler of the first loop (for \<^verbatim>\<open>json.JSONDecodeError\<close> only) does not catch: the
  body of the loop raises, the empty dictionary is not substituted, no \<^verbatim>\<open>tool_call\<close>
  event is logged, the executor is not called, and instead of going on the handler of
  the connection finalises the session, so that the next message is never read. The
  second loop and the handler around the executor both name \<^verbatim>\<open>Exception\<close>.
\<close>

theorem decoder_exception_not_caught:
  "run_tool_call (calling_env deep_args) (search_call deep_args)
      (asked (calling_env deep_args) ''search for X'')
     = Escaped deep_error (asked (calling_env deep_args) ''search for X'')
   \<and> map event_type (events_table (run_world
        (user_turn (calling_env deep_args) ''search for X''
           (connect (calling_env deep_args) ''s1'' ''user_1''))))
       = [''session_start'', ''user_message'']
   \<and> tool_invocations (run_world
        (user_turn (calling_env deep_args) ''search for X''
           (connect (calling_env deep_args) ''s1'' ''user_1''))) = []
   \<and> receive_loop (calling_env deep_args)
        [message_frame ''search for X'', message_frame ''again'']
        (connect (calling_env deep_args) ''s1'' ''user_1'')
       = Finished (handle_session_end (calling_env deep_args)
           (run_world (user_turn (calling_env deep_args) ''search for X''
              (connect (calling_env deep_args) ''s1'' ''user_1''))))"
  by code_simp

subsection \<open>C8: inbound frames\<close>

text \<open>
  C8, as amended. A decoded frame is handed to a turn exactly when it is a JSON object
  whose \<^verbatim>\<open>type\<close> is \<^verbatim>\<open>"message"\<close> and whose \<^verbatim>\<open>content\<close> is a string that is non-empty
  after stripping white space. A JSON object with any other \<^verbatim>\<open>type\<close>, or with type
  \<^verbatim>\<open>"message"\<close> and a content that is absent or a blank string, is ignored and the
  receive loop goes on. A frame that is decoded but is not a JSON object, a message
  whose content is not a string, and a frame that cannot be decoded all raise: the
  receive loop ends and the session is finalised. No frame is sent back in any of
  these cases.
\<close>

theorem inbound_frame_dispatch:
  "(map_of kvs ''type'' = Some (JStr ''message'') \<and> map_of kvs ''content'' = Some (JStr c)
      \<and> strip c \<noteq> [] \<longrightarrow>
      receive_loop env (Frame (JObj kvs) # rest) w
        = (case user_turn env (strip c) w of
             Returned w1 \<Rightarrow> receive_loop env rest w1
           | Escaped e w1 \<Rightarrow> Finished (handle_session_end env w1)))
   \<and> (map_of kvs ''type'' \<noteq> Some (JStr ''message'')
        \<or> map_of kvs ''type'' = Some (JStr ''message'')
           \<and> (map_of kvs ''content'' = None
               \<or> map_of kvs ''content'' = Some (JStr c) \<and> strip c = []) \<longrightarrow>
      receive_loop env (Frame (JObj kvs) # rest) w = receive_loop env rest w)
   \<and> ((\<forall>kvs. data \<noteq> JObj kvs)
        \<or> data = JObj kvs \<and> map_of kvs ''type'' = Some (JStr ''message'')
           \<and> map_of kvs ''content'' = Some v \<and> (\<forall>c. v \<noteq> JStr c) \<longrightarrow>
      receive_loop env (Frame data # rest) w = Finished (handle_session_end env w))
   \<and> receive_loop env (Malformed # rest) w = Finished (handle_session_end env w)
   \<and> outbox (handle_session_end env w) = outbox w"
proof (intro conjI impI)
  assume "map_of kvs ''type'' = Some (JStr ''message'') \<and> map_of kvs ''content'' = Some (JStr c)
      \<and> strip c \<noteq> []"
  then show "receive_loop env (Frame (JObj kvs) # rest) w
        = (case user_turn env (strip c) w of
             Returned w1 \<Rightarrow> receive_loop env rest w1
           | Escaped e w1 \<Rightarrow> Finished (handle_session_end env w1))"
    by (simp add: dispatch_def Let_def)
next
  assume "map_of kvs ''type'' \<noteq> Some (JStr ''message'')
        \<or> map_of kvs ''type'' = Some (JStr ''message'')
           \<and> (map_of kvs ''content'' = None
               \<or> map_of kvs ''content'' = Some (JStr c) \<and> strip c = [])"
  then have "dispatch (JObj kvs) = Skip"
    by (auto simp: dispatch_def Let_def strip_def)
  then show "receive_loop env (Frame (JObj kvs) # rest) w = receive_loop env rest w"
    by simp
next
  assume a: "(\<forall>kvs. data \<noteq> JObj kvs)
        \<or> data = JObj kvs \<and> map_of kvs ''type'' = Some (JStr ''message'')
           \<and> map_of kvs ''content'' = Some v \<and> (\<forall>c. v \<noteq> JStr c)"
  have "dispatch data = Raise"
  proof (cases data)
    case (JObj kvs')
    with a have "map_of kvs' ''type'' = Some (JStr ''message'')"
      "map_of kvs' ''content'' = Some v" "\<forall>c. v \<noteq> JStr c" by auto
    with JObj show ?thesis by (cases v) (simp_all add: dispatch_def)
  qed (simp_all add: dispatch_def)
  then show "receive_loop env (Frame data # rest) w = Finished (handle_session_end env w)"
    by simp
next
  show "receive_loop env (Malformed # rest) w = Finished (handle_session_end env w)"
    by simp
next
  show "outbox (handle_session_end env w) = outbox w"
    by simp
qed

theorem inbound_frame_dispatch_witness:
  "strip '' hello '' \<noteq> []
   \<and> receive_loop plain_env
        [Frame (JObj [(''type'', JStr ''message''), (''content'', JStr '' hello '')])]
        (connect plain_env ''s1'' ''user_1'')
       = Listening (run_world
           (user_turn plain_env (strip '' hello '') (connect plain_env ''s1'' ''user_1'')))
   \<and> receive_loop plain_env [Frame (JObj [(''type'', JStr ''ping'')])]
        (connect plain_env ''s1'' ''user_1'')
       = Listening (connect plain_env ''s1'' ''user_1'')
   \<and> receive_loop plain_env
        [Frame (JObj [(''type'', JStr ''message''), (''content'', JInt 5)])]
        (connect plain_env ''s1'' ''user_1'')
       = Finished (handle_session_end plain_env (connect plain_env ''s1'' ''user_1''))
   \<and> receive_loop plain_env [Malformed, message_frame ''hello'']
        (connect plain_env ''s1'' ''user_1'')
       = Finished (handle_session_end plain_env (connect plain_env ''s1'' ''user_1''))
   \<and> outbox (handle_session_end plain_env (connect plain_env ''s1'' ''user_1'')) = []"
proof -
  let ?c = "connect plain_env ''s1'' ''user_1''"
  have h: "strip '' hello '' \<noteq> []" by code_simp
  have r: "user_turn plain_env (strip '' hello '') ?c
             = Returned (run_world (user_turn plain_env (strip '' hello '') ?c))"
    by code_simp
  have o: "outbox ?c = []" by code_simp
  have a: "receive_loop plain_env
        (Frame (JObj [(''type'', JStr ''message''), (''content'', JStr '' hello '')]) # []) ?c
       = (case user_turn plain_env (strip '' hello '') ?c of
             Returned w1 \<Rightarrow> receive_loop plain_env [] w1
           | Escaped e w1 \<Rightarrow> Finished (handle_session_end plain_env w1))"
    using inbound_frame_dispatch [where kvs = "[(''type'', JStr ''message''), (''content'', JStr '' hello '')]"
        and c = "'' hello ''" and env = plain_env and rest = "[]" and w = ?c] h
    by simp
  have a': "receive_loop plain_env
        [Frame (JObj [(''type'', JStr ''message''), (''content'', JStr '' hello '')])] ?c
       = Listening (run_world (user_turn plain_env (strip '' hello '') ?c))"
    unfolding a by (subst r) simp
  have b: "receive_loop plain_env (Frame (JObj [(''type'', JStr ''ping'')]) # []) ?c
       = receive_loop plain_env [] ?c"
    using inbound_frame_dispatch [where kvs = "[(''type'', JStr ''ping'')]"
        and env = plain_env and rest = "[]" and w = ?c]
    by simp
  have c: "receive_loop plain_env
        (Frame (JObj [(''type'', JStr ''message''), (''content'', JInt 5)]) # []) ?c
       = Finished (handle_session_end plain_env ?c)"
    using inbound_frame_dispatch [where kvs = "[(''type'', JStr ''message''), (''content'', JInt 5)]"
        and data = "JObj [(''type'', JStr ''message''), (''content'', JInt 5)]"
        and v = "JInt 5" and env = plain_env and rest = "[]" and w = ?c]
    by simp
  have d: "receive_loop plain_env (Malformed # [message_frame ''hello'']) ?c
       = Finished (handle_session_end plain_env ?c)"
    using inbound_frame_dispatch [where env = plain_env and rest = "[message_frame ''hello'']"
        and w = ?c]
    by blast
  have e: "outbox (handle_session_end plain_env ?c) = []"
    using inbound_frame_dispatch [where env = plain_env and w = ?c] o by simp
  from h a' b c d e show ?thesis by simp
qed

text \<open>
  The claim as stated fails: the frame \<^verbatim>\<open>[]\<close> is JSON but not an object, so
  \<^verbatim>\<open>data.get\<close> raises; the handler finalises the session and returns, and the message
  that follows is never read.
\<close>

theorem inbound_frame_dispatch_counterexample:
  "receive_loop plain_env [Frame (JArr []), message_frame ''hello'']
     (connect plain_env ''s1'' ''user_1'')
     = Finished (handle_session_end plain_env (connect plain_env ''s1'' ''user_1''))
   \<and> session_status (conn_world (receive_loop plain_env
        [Frame (JArr []), message_frame ''hello''] (connect plain_env ''s1'' ''user_1'')))
       = ''completed''
   \<and> completion_calls (conn_world (receive_loop plain_env
        [Frame (JArr []), message_frame ''hello''] (connect plain_env ''s1'' ''user_1'')))
       = []"
  by code_simp

subsection \<open>C9: how often a tool runs\<close>

text \<open>
  C9, as amended. For the tool calls of one response on none of whose arguments
  \<^verbatim>\<open>json.loads\<close> raises an exception other than \<^verbatim>\<open>json.JSONDecodeError\<close>: the executor
  is called once per call in the first loop, on the parsed arguments or on the empty
  dictionary when they do not parse, and then once more, in the second loop, for each
  call whose arguments parse, on the same parsed arguments. So a call with well-formed
  arguments runs twice on equal inputs, and a call with malformed arguments runs once.
\<close>

theorem executor_invocations:
  assumes "list_all (\<lambda>tc. \<not> loads_escapes env tc) tcs"
  shows "handle_tool_calls env tcs w = Returned (run_world (handle_tool_calls env tcs w))
   \<and> tool_invocations (run_world (handle_tool_calls env tcs w)) =
       tool_invocations w
       @ map (\<lambda>tc. (function_name tc,
            case json_loads env (function_arguments tc) of
              Decoded v \<Rightarrow> v | _ \<Rightarrow> JObj [])) tcs
       @ List.map_filter (\<lambda>tc.
            case json_loads env (function_arguments tc) of
              Decoded v \<Rightarrow> Some (function_name tc, v)
            | _ \<Rightarrow> None) tcs"
proof -
  from assms have a: "\<forall>tc \<in> set tcs. \<not> loads_escapes env tc"
    by (simp add: list_all_iff)
  then obtain w1 where r: "run_tool_calls env tcs w = Returned w1"
    using run_tool_calls_returns by blast
  from a have t: "takeWhile (\<lambda>tc. \<not> loads_escapes env tc) tcs = tcs"
    by (simp add: takeWhile_eq_all_conv)
  from r have i: "tool_invocations w1 =
       tool_invocations w
       @ map (\<lambda>tc. (function_name tc,
            case json_loads env (function_arguments tc) of
              Decoded v \<Rightarrow> v | _ \<Rightarrow> JObj [])) tcs"
    using run_tool_calls_invocations [of env tcs w] by (simp add: t)
  from r i show ?thesis
    by (simp add: handle_tool_calls_def Let_def case_prod_unfold tool_results_invocations)
qed

theorem executor_invocations_witness:
  "list_all (\<lambda>tc. \<not> loads_escapes (calling_env valid_args) tc)
     [search_call valid_args, fetch_call ''{invalid'']
   \<and> tool_invocations (run_world (handle_tool_calls (calling_env valid_args)
        [search_call valid_args, fetch_call ''{invalid'']
        (asked (calling_env valid_args) ''search for X'')))
     = [(''search_knowledge_base'', JObj [(''query'', JStr ''X'')]),
        (''fetch_user_data'', JObj []),
        (''search_knowledge_base'', JObj [(''query'', JStr ''X'')])]"
proof -
  have h: "list_all (\<lambda>tc. \<not> loads_escapes (calling_env valid_args) tc)
             [search_call valid_args, fetch_call ''{invalid'']"
    by code_simp
  have l1: "json_loads (calling_env valid_args) (function_arguments (search_call valid_args))
              = Decoded (JObj [(''query'', JStr ''X'')])"
    by code_simp
  have l2: "json_loads (calling_env valid_args) (function_arguments (fetch_call ''{invalid''))
              = JSONDecodeError"
    by code_simp
  have n1: "function_name (search_call valid_args) = ''search_knowledge_base''"
    by (simp add: search_call_def)
  have n2: "function_name (fetch_call ''{invalid'') = ''fetch_user_data''"
    by (simp add: fetch_call_def)
  have v: "tool_invocations (asked (calling_env valid_args) ''search for X'') = []"
    by code_simp
  from executor_invocations [OF h, of "asked (calling_env valid_args) ''search for X''"]
  have "tool_invocations (run_world (handle_tool_calls (calling_env valid_args)
        [search_call valid_args, fetch_call ''{invalid'']
        (asked (calling_env valid_args) ''search for X'')))
     = [(''search_knowledge_base'', JObj [(''query'', JStr ''X'')]),
        (''fetch_user_data'', JObj []),
        (''search_knowledge_base'', JObj [(''query'', JStr ''X'')])]"
    by (simp add: l1 l2 n1 n2 v List.map_filter_simps)
  with h show ?thesis by blast
qed

text \<open>
  The claim as stated fails: for the arguments \<^verbatim>\<open>{invalid\<close> the executor is called
  once, on the empty dictionary; the second loop raises in \<^verbatim>\<open>json.loads\<close> before it
  reaches the executor.
\<close>

theorem executor_invocations_counterexample:
  "tool_invocations (run_world (handle_tool_calls (calling_env ''{invalid'')
      [search_call ''{invalid''] (asked (calling_env ''{invalid'') ''search for X'')))
     = [(''search_knowledge_base'', JObj [])]"
  by code_simp

subsection \<open>C10: a text that begins with the tested phrase\<close>

text \<open>
  C10. A response text that is non-empty after stripping and begins with \<^verbatim>\<open>I'll\<close> is
  appended to the history as an assistant turn, while no event is logged and no frame
  is sent for it: the event log and the frames seen by the client then differ from the
  history given to the completion service.
\<close>

theorem deferred_text_history_only:
  assumes "iteration < max_iterations"
    and "groq_create env (groq_messages (Suc iteration) (messages w)) = Inr response"
    and "resp_content response = Some t"
    and "strip t \<noteq> []"
    and "startswith (strip t) ''I'll''"
  shows "let w1 = handle_text env (Some t)
                    (w\<lparr>completion_calls := completion_calls w
                                            @ [groq_messages (Suc iteration) (messages w)]\<rparr>)
         in event_sequence w1 = event_sequence w
          \<and> events_table w1 = events_table w
          \<and> outbox w1 = outbox w
          \<and> messages w1 = messages w @ [Turn ''assistant'' (strip t)]
          \<and> stream_loop env iteration w =
              (if resp_tool_calls response = [] then Returned w1
               else (case handle_tool_calls env (resp_tool_calls response) w1 of
                       Returned w2 \<Rightarrow> stream_loop env (Suc iteration) w2
                     | Escaped e w2 \<Rightarrow> Escaped e w2))"
proof -
  have t: "t \<noteq> []" using assms(4) by (rule strip_nonempty_truthy)
  show ?thesis
    using assms t
    by (simp add: Let_def stream_loop_text stream_loop_tools)
       (simp add: handle_text_def Let_def)
qed

theorem deferred_text_history_only_witness:
  "0 < max_iterations
   \<and> groq_create deferred_env (groq_messages (Suc 0) (messages (asked deferred_env ''hello'')))
       = Inr \<lparr>resp_content = Some deferred_text, resp_tool_calls = []\<rparr>
   \<and> strip deferred_text \<noteq> []
   \<and> startswith (strip deferred_text) ''I'll''
   \<and> outbox (run_world (stream_loop deferred_env 0 (asked deferred_env ''hello''))) = []
   \<and> events_table (run_world (stream_loop deferred_env 0 (asked deferred_env ''hello'')))
       = events_table (asked deferred_env ''hello'')
   \<and> messages (run_world (stream_loop deferred_env 0 (asked deferred_env ''hello'')))
       = [Turn ''user'' ''hello'', Turn ''assistant'' (strip deferred_text)]"
proof -
  let ?r = "\<lparr>resp_content = Some deferred_text, resp_tool_calls = []\<rparr>"
  let ?w = "asked deferred_env ''hello''"
  have h1: "0 < max_iterations" by (simp add: max_iterations_def)
  have h2: "groq_create deferred_env (groq_messages (Suc 0) (messages ?w)) = Inr ?r"
    by code_simp
  have h3: "resp_content ?r = Some deferred_text" by simp
  have h4: "strip deferred_text \<noteq> []" by code_simp
  have h5: "startswith (strip deferred_text) ''I'll''" by code_simp
  have o: "outbox ?w = []" by code_simp
  have m: "messages ?w = [Turn ''user'' ''hello'']" by code_simp
  from deferred_text_history_only [OF h1 h2 h3 h4 h5]
  have "outbox (run_world (stream_loop deferred_env 0 ?w)) = []"
    and "events_table (run_world (stream_loop deferred_env 0 ?w)) = events_table ?w"
    and "messages (run_world (stream_loop deferred_env 0 ?w))
           = [Turn ''user'' ''hello'', Turn ''assistant'' (strip deferred_text)]"
    by (simp_all add: Let_def o m)
  with h1 h2 h4 h5 show ?thesis by blast
qed

end
